theory Spec2Isabelle
  imports Main "HOL-Library.Sublist"
begin

section \<open>Python values the two scripts compute with\<close>

text \<open>
  The scripts are \<^verbatim>\<open>start_services_enhanced.py\<close> (class \<^verbatim>\<open>ServiceManager\<close>) and
  \<^verbatim>\<open>configure_services.py\<close> (class \<^verbatim>\<open>ServiceConfigurator\<close>). Strings are byte lists, so
  the model covers ASCII text; Python's unbounded integers are \<^typ>\<open>int\<close>.
\<close>

subsection \<open>Exceptions\<close>

datatype error = KeyError string | IndexError | TypeError | AttributeError

subsection \<open>\<^verbatim>\<open>str(n)\<close> of an integer, as the f-strings render it\<close>

definition digit_char :: "nat \<Rightarrow> char" where
  "digit_char n = ''0123456789'' ! n"

fun str_nat :: "nat \<Rightarrow> string" where
  "str_nat n = (if n < 10 then [digit_char n] else str_nat (n div 10) @ [digit_char (n mod 10)])"

declare str_nat.simps [simp del]

definition str_int :: "int \<Rightarrow> string" where
  "str_int i = (if i < 0 then CHR ''-'' # str_nat (nat (- i)) else str_nat (nat i))"

subsection \<open>\<^verbatim>\<open>d.get(key, default)\<close> on a field that may be absent\<close>

definition get_or :: "'a \<Rightarrow> 'a option \<Rightarrow> 'a" where
  "get_or d x = (case x of None \<Rightarrow> d | Some v \<Rightarrow> v)"

subsection \<open>\<^verbatim>\<open>s.replace(old, new)\<close>, \<^verbatim>\<open>s.upper()\<close> and \<^verbatim>\<open>sep.join(lines)\<close>\<close>

text \<open>
  \<^verbatim>\<open>str.replace\<close> scans from the left and replaces every occurrence it meets, resuming
  after the replaced text; what it has written is never scanned again. With an empty
  \<open>old\<close> Python puts \<open>new\<close> before every character and at the end.
\<close>

fun replace_scan :: "string \<Rightarrow> string \<Rightarrow> string \<Rightarrow> string" where
  "replace_scan old new [] = []"
| "replace_scan old new (c # cs) =
     (if prefix old (c # cs) then new @ replace_scan old new (drop (length old - 1) cs)
      else c # replace_scan old new cs)"

definition str_replace :: "string \<Rightarrow> string \<Rightarrow> string \<Rightarrow> string" where
  "str_replace old new s =
     (if old = [] then new @ concat (map (\<lambda>c. c # new) s) else replace_scan old new s)"

text \<open>
  A string is a list of bytes. The two functions below that depend on what a character
  is, \<open>upper\<close> and \<open>py_int\<close>, are Python's \<^verbatim>\<open>str.upper\<close> and \<^verbatim>\<open>int\<close> on ASCII text only:
  beyond ASCII Python also changes the case of other letters and reads other decimal
  digits. Every statement that rests on them is made for ASCII text, which \<open>is_ascii\<close>
  says.
\<close>

definition is_ascii :: "string \<Rightarrow> bool" where
  "is_ascii s = list_all (\<lambda>c. of_char c < (128::nat)) s"

text \<open>Upper case of the ASCII letters.\<close>

definition upper_char :: "char \<Rightarrow> char" where
  "upper_char c =
     get_or c (map_of (zip ''abcdefghijklmnopqrstuvwxyz'' ''ABCDEFGHIJKLMNOPQRSTUVWXYZ'') c)"

definition upper :: "string \<Rightarrow> string" where
  "upper s = map upper_char s"

fun join :: "string \<Rightarrow> string list \<Rightarrow> string" where
  "join sep [] = []"
| "join sep [x] = x"
| "join sep (x # y # ys) = x @ sep @ join sep (y # ys)"

section \<open>The registry as the scripts read it\<close>

text \<open>
  \<^verbatim>\<open>services.json\<close> is read into nested dictionaries. A field the code reads with
  \<^verbatim>\<open>.get(key, default)\<close> is an \<open>option\<close> (\<open>None\<close>: the key is absent); a field the
  code reads with \<^verbatim>\<open>[key]\<close> on every path is a plain field. A dictionary the code iterates
  over is the list of its items in insertion order.
\<close>

record port_mapping =
  host_ip :: string
  host_port :: int
  container_port :: int
  protocol :: "string option"

record service =
  enabled :: "bool option"
  category :: "string option"
  description :: "string option"
  ports :: "port_mapping list option"
  profiles :: "string list option"
  reverse_proxy :: "bool option"

record profile =
  profile_description :: "string option"
  included_services :: "string list option"

record global_settings =
  project_name :: "string option"
  default_host_ip :: "string option"

record config =
  cfg_global :: "global_settings option"
  cfg_services :: "(string \<times> service) list option"
  cfg_profiles :: "(string \<times> profile) list option"

text \<open>\<^verbatim>\<open>service_config.get('enabled', False)\<close> and \<^verbatim>\<open>service_config.get('ports', [])\<close>.\<close>

definition is_enabled :: "service \<Rightarrow> bool" where
  "is_enabled s = get_or False (enabled s)"

definition ports_of :: "service \<Rightarrow> port_mapping list" where
  "ports_of s = get_or [] (ports s)"

section \<open>\<^verbatim>\<open>ServiceManager.validate_config\<close>\<close>

text \<open>
  The function prints a diagnostic and returns a boolean; the model returns the diagnostic,
  and the boolean is \<open>validation_ok\<close>. \<open>PortConflict key first second\<close> stands for the line
  \<^verbatim>\<open>Error: Port conflict! {key} is used by both {used_ports[key]} and {service_name}\<close>.
\<close>

datatype validation = Passed | MissingSection string | PortConflict string string string

definition port_key :: "port_mapping \<Rightarrow> string" where
  "port_key p = host_ip p @ '':'' @ str_int (host_port p)"

text \<open>
  The inner loop over one service's ports. \<open>used\<close> is the dictionary \<^verbatim>\<open>used_ports\<close>, as
  the list of its items, newest first; a key is only ever stored when it is not yet there.
\<close>

fun check_ports ::
  "string \<Rightarrow> port_mapping list \<Rightarrow> (string \<times> string) list \<Rightarrow> validation + (string \<times> string) list" where
  "check_ports service_name [] used = Inr used"
| "check_ports service_name (p # ps) used =
     (let key = port_key p in
      case map_of used key of
        Some owner \<Rightarrow> Inl (PortConflict key owner service_name)
      | None \<Rightarrow> check_ports service_name ps ((key, service_name) # used))"

text \<open>The outer loop over the items of \<^verbatim>\<open>self.config['services']\<close>.\<close>

fun check_services ::
  "(string \<times> service) list \<Rightarrow> (string \<times> string) list \<Rightarrow> validation + (string \<times> string) list" where
  "check_services [] used = Inr used"
| "check_services ((service_name, service_config) # rest) used =
     (if \<not> is_enabled service_config then check_services rest used
      else case check_ports service_name (ports_of service_config) used of
             Inl v \<Rightarrow> Inl v
           | Inr used' \<Rightarrow> check_services rest used')"

definition validate_config :: "config \<Rightarrow> validation" where
  "validate_config c =
     (if cfg_global c = None then MissingSection ''global''
      else case cfg_services c of
        None \<Rightarrow> MissingSection ''services''
      | Some svcs \<Rightarrow>
          if cfg_profiles c = None then MissingSection ''profiles''
          else case check_services svcs [] of
                 Inl v \<Rightarrow> v
               | Inr used \<Rightarrow> Passed)"

definition validation_ok :: "config \<Rightarrow> bool" where
  "validation_ok c = (validate_config c = Passed)"

subsection \<open>Notions the statements about validation use\<close>

text \<open>
  The port mappings that take part in the scan, each with its owning service, in the
  order the two loops visit them.
\<close>

definition enabled_bindings :: "(string \<times> service) list \<Rightarrow> (string \<times> port_mapping) list" where
  "enabled_bindings svcs =
     concat (map (\<lambda>(n, s). map (Pair n) (ports_of s)) (filter (\<lambda>(n, s). is_enabled s) svcs))"

definition host_pair :: "port_mapping \<Rightarrow> string \<times> int" where
  "host_pair p = (host_ip p, host_port p)"

text \<open>
  Two entries at different positions of the service map, both enabled, declare a mapping
  with the same host address and host port.
\<close>

definition shared_by_two_services :: "(string \<times> service) list \<Rightarrow> bool" where
  "shared_by_two_services svcs =
     list_ex (\<lambda>i. list_ex (\<lambda>j. i \<noteq> j
         \<and> is_enabled (snd (svcs ! i)) \<and> is_enabled (snd (svcs ! j))
         \<and> list_ex (\<lambda>p. list_ex (\<lambda>q. host_pair p = host_pair q) (ports_of (snd (svcs ! j))))
              (ports_of (snd (svcs ! i))))
       [0 ..< length svcs]) [0 ..< length svcs]"

text \<open>The two loops as one pass over \<open>enabled_bindings\<close>.\<close>

fun scan ::
  "(string \<times> port_mapping) list \<Rightarrow> (string \<times> string) list \<Rightarrow> validation + (string \<times> string) list" where
  "scan [] used = Inr used"
| "scan ((n, p) # rest) used =
     (case map_of used (port_key p) of
        Some owner \<Rightarrow> Inl (PortConflict (port_key p) owner n)
      | None \<Rightarrow> scan rest ((port_key p, n) # used))"

section \<open>\<^verbatim>\<open>ServiceManager.get_enabled_services\<close>\<close>

text \<open>
  \<^verbatim>\<open>self.config.get('profiles', {}).get(profile, {}).get('included_services', [])\<close>:
  every missing level yields the empty default.
\<close>

definition profile_services :: "config \<Rightarrow> string \<Rightarrow> string list" where
  "profile_services c profile =
     (case map_of (get_or [] (cfg_profiles c)) profile of
        None \<Rightarrow> []
      | Some pd \<Rightarrow> get_or [] (included_services pd))"

text \<open>
  The loop over the items of \<^verbatim>\<open>self.config['services']\<close>. The parameter \<open>profile\<close> is an
  \<^verbatim>\<open>Optional[str]\<close>; the test \<^verbatim>\<open>profile and profile != 'all'\<close> is false for \<^verbatim>\<open>None\<close>, for
  the empty string and for \<^verbatim>\<open>'all'\<close>.
\<close>

fun enabled_loop ::
  "config \<Rightarrow> string option \<Rightarrow> (string \<times> service) list \<Rightarrow> string list \<Rightarrow> string list" where
  "enabled_loop c profile [] enabled_services = enabled_services"
| "enabled_loop c profile ((service_name, service_config) # rest) enabled_services =
     (if \<not> is_enabled service_config then enabled_loop c profile rest enabled_services
      else case profile of
        None \<Rightarrow> enabled_loop c profile rest (enabled_services @ [service_name])
      | Some pr \<Rightarrow>
          if pr \<noteq> [] \<and> pr \<noteq> ''all'' then
            (let service_profiles = get_or [] (profiles service_config);
                 profile_services = profile_services c pr
             in if pr \<in> set service_profiles \<or> service_name \<in> set profile_services
                then enabled_loop c profile rest (enabled_services @ [service_name])
                else enabled_loop c profile rest enabled_services)
          else enabled_loop c profile rest (enabled_services @ [service_name]))"

definition get_enabled_services :: "string option \<Rightarrow> config \<Rightarrow> error + string list" where
  "get_enabled_services profile c =
     (case cfg_services c of
        None \<Rightarrow> Inl (KeyError ''services'')
      | Some svcs \<Rightarrow> Inr (enabled_loop c profile svcs []))"

section \<open>\<^verbatim>\<open>ServiceManager.generate_override_file\<close>\<close>

text \<open>
  \<^verbatim>\<open>self.config['services'].get(service_name, {})\<close>: a name that is not in the service map
  yields the empty dictionary, on which every \<^verbatim>\<open>.get\<close> returns its default.
\<close>

definition empty_service :: service where
  "empty_service = \<lparr>enabled = None, category = None, description = None, ports = None,
     profiles = None, reverse_proxy = None\<rparr>"

definition get_service :: "(string \<times> service) list \<Rightarrow> string \<Rightarrow> service" where
  "get_service svcs service_name = get_or empty_service (map_of svcs service_name)"

text \<open>\<^verbatim>\<open>d[key] = value\<close> on a dictionary kept as its item list: an existing key keeps its place.\<close>

fun dict_set :: "'k \<Rightarrow> 'v \<Rightarrow> ('k \<times> 'v) list \<Rightarrow> ('k \<times> 'v) list" where
  "dict_set k v [] = [(k, v)]"
| "dict_set k v ((k', v') # rest) =
     (if k' = k then (k, v) # rest else (k', v') # dict_set k v rest)"

text \<open>The inner loop: one binding string per port that is not skipped by \<^verbatim>\<open>continue\<close>.\<close>

fun port_mappings_loop ::
  "string \<Rightarrow> string \<Rightarrow> port_mapping list \<Rightarrow> string list \<Rightarrow> string list" where
  "port_mappings_loop service_name environment [] port_mappings = port_mappings"
| "port_mappings_loop service_name environment (port_config # rest) port_mappings =
     (let proto = get_or ''tcp'' (protocol port_config) in
      if environment = ''private'' then
        port_mappings_loop service_name environment rest (port_mappings @
          [host_ip port_config @ '':'' @ str_int (host_port port_config) @ '':''
             @ str_int (container_port port_config) @ ''/'' @ proto])
      else if service_name \<in> set [''caddy''] then
        (if host_ip port_config = ''0.0.0.0'' then
           port_mappings_loop service_name environment rest (port_mappings @
             [str_int (host_port port_config) @ '':''
                @ str_int (container_port port_config) @ ''/'' @ proto])
         else port_mappings_loop service_name environment rest port_mappings)
      else port_mappings_loop service_name environment rest port_mappings)"

text \<open>The outer loop over the resolved names; \<open>acc\<close> is \<^verbatim>\<open>override_config['services']\<close>.\<close>

fun override_loop ::
  "(string \<times> service) list \<Rightarrow> string \<Rightarrow> string list \<Rightarrow> (string \<times> string list) list
     \<Rightarrow> (string \<times> string list) list" where
  "override_loop svcs environment [] acc = acc"
| "override_loop svcs environment (service_name # rest) acc =
     (let service_config = get_service svcs service_name;
          ports = ports_of service_config
      in if ports = [] then override_loop svcs environment rest acc
         else let port_mappings = port_mappings_loop service_name environment ports []
              in if port_mappings \<noteq> []
                 then override_loop svcs environment rest (dict_set service_name port_mappings acc)
                 else override_loop svcs environment rest acc)"

text \<open>
  The function writes \<^verbatim>\<open>override_config\<close> to the file it names, printed by
  \<^verbatim>\<open>_dict_to_yaml\<close>; the model returns the file name and \<^verbatim>\<open>override_config['services']\<close>.
  \<^verbatim>\<open>self.config['services']\<close> is read inside the loop body, so a missing section raises
  only when there is a name to look up.
\<close>

definition generate_override_file ::
  "string list \<Rightarrow> string \<Rightarrow> config \<Rightarrow> error + string \<times> (string \<times> string list) list" where
  "generate_override_file services environment c =
     (let override_filename = ''docker-compose.override.'' @ environment @ ''.generated.yml'' in
      if services = [] then Inr (override_filename, [])
      else case cfg_services c of
        None \<Rightarrow> Inl (KeyError ''services'')
      | Some svcs \<Rightarrow> Inr (override_filename, override_loop svcs environment services []))"

text \<open>
  What the public overlay holds for \<open>caddy\<close>: its wildcard bindings, without the host
  address.
\<close>

definition caddy_public_bindings :: "(string \<times> service) list \<Rightarrow> string list" where
  "caddy_public_bindings svcs =
     map (\<lambda>p. str_int (host_port p) @ '':'' @ str_int (container_port p) @ ''/''
              @ get_or ''tcp'' (protocol p))
       (filter (\<lambda>p. host_ip p = ''0.0.0.0'') (ports_of (get_service svcs ''caddy'')))"

section \<open>\<^verbatim>\<open>ServiceManager.generate_caddyfile\<close>\<close>

definition hostname_map :: "(string \<times> string) list" where
  "hostname_map =
     [(''n8n'', ''$N8N_HOSTNAME''),
      (''open-webui'', ''$WEBUI_HOSTNAME''),
      (''flowise'', ''$FLOWISE_HOSTNAME''),
      (''langfuse-web'', ''$LANGFUSE_HOSTNAME''),
      (''neo4j'', ''$NEO4J_HOSTNAME''),
      (''searxng'', ''$SEARXNG_HOSTNAME''),
      (''portainer'', ''$PORTAINER_HOSTNAME'')]"

text \<open>
  \<^verbatim>\<open>_get_hostname_variable\<close>. In the f-string of the fallback the dollar sign is literal
  text in front of the braces.
\<close>

definition get_hostname_variable :: "string \<Rightarrow> string" where
  "get_hostname_variable service_name =
     get_or (''$'' @ str_replace ''-'' ''_'' (upper service_name) @ ''_HOSTNAME'')
       (map_of hostname_map service_name)"

text \<open>The loop over the resolved names; \<open>caddy_config\<close> is the list of lines built so far.\<close>

fun caddy_loop :: "(string \<times> service) list \<Rightarrow> string list \<Rightarrow> string list \<Rightarrow> string list" where
  "caddy_loop svcs [] caddy_config = caddy_config"
| "caddy_loop svcs (service_name # rest) caddy_config =
     (let service_config = get_service svcs service_name in
      if \<not> get_or False (reverse_proxy service_config) then caddy_loop svcs rest caddy_config
      else case ports_of service_config of
        [] \<Rightarrow> caddy_loop svcs rest caddy_config
      | first_port # _ \<Rightarrow>
          (let hostname_var = get_hostname_variable service_name
           in caddy_loop svcs rest (caddy_config @
                [''# '' @ get_or service_name (description service_config),
                 ''{'' @ hostname_var @ ''} {'',
                 ''    reverse_proxy '' @ service_name @ '':'' @ str_int (container_port first_port),
                 ''}'',
                 []])))"

definition newline :: string where
  "newline = [CHR 0x0A]"

text \<open>
  All lines of the document, and the text written to \<^verbatim>\<open>Caddyfile.generated\<close>. As in the
  overlay, \<^verbatim>\<open>self.config['services']\<close> is read inside the loop body only.
\<close>

definition caddy_lines :: "(string \<times> service) list \<Rightarrow> string list \<Rightarrow> string list" where
  "caddy_lines svcs services =
     caddy_loop svcs services
         [''{'' @ newline @ ''    email {$LETSENCRYPT_EMAIL}'' @ newline @ ''}'', []]
       @ [''import /etc/caddy/addons/*.conf'', []]"

definition generate_caddyfile :: "string list \<Rightarrow> config \<Rightarrow> error + string" where
  "generate_caddyfile services c =
     (if services = [] then Inr (join newline (caddy_lines [] []))
      else case cfg_services c of
        None \<Rightarrow> Inl (KeyError ''services'')
      | Some svcs \<Rightarrow> Inr (join newline (caddy_lines svcs services)))"

text \<open>
  The routing block of one resolved name, as the specification words it: for a service
  flagged \<open>reverse_proxy\<close> that declares a port, the description as a comment, the
  hostname placeholder as key, the proxy target with the first port's container side, the
  closing brace and an empty line; nothing for any other name.
\<close>

definition routing_block :: "(string \<times> service) list \<Rightarrow> string \<Rightarrow> string list" where
  "routing_block svcs n =
     (let s = get_service svcs n in
      if reverse_proxy s = Some True \<and> ports_of s \<noteq> [] then
        [''# '' @ get_or n (description s),
         ''{'' @ get_hostname_variable n @ ''} {'',
         ''    reverse_proxy '' @ n @ '':'' @ str_int (container_port (hd (ports_of s))),
         ''}'',
         []]
      else [])"

section \<open>\<^verbatim>\<open>ServiceConfigurator\<close>: toggling a service\<close>

text \<open>
  \<^verbatim>\<open>d[key][field] = value\<close> for a key that is in the dictionary: the entry is changed
  where it stands.
\<close>

fun dict_modify :: "'k \<Rightarrow> ('v \<Rightarrow> 'v) \<Rightarrow> ('k \<times> 'v) list \<Rightarrow> ('k \<times> 'v) list" where
  "dict_modify k f [] = []"
| "dict_modify k f ((k', v) # rest) =
     (if k' = k then (k', f v) # rest else (k', v) # dict_modify k f rest)"

text \<open>
  \<^verbatim>\<open>toggle_service\<close> prints one of three lines and changes the registry in place; the
  model returns the line and the registry. A missing \<^verbatim>\<open>services\<close> section raises before
  anything is changed.
\<close>

datatype toggle_message = NowEnabled string | NowDisabled string | ServiceNotFound string

definition toggle_service :: "string \<Rightarrow> config \<Rightarrow> error + toggle_message \<times> config" where
  "toggle_service service_name c =
     (case cfg_services c of
        None \<Rightarrow> Inl (KeyError ''services'')
      | Some svcs \<Rightarrow>
          (case map_of svcs service_name of
             Some service_config \<Rightarrow>
               (let current_status = get_or False (enabled service_config) in
                Inr (if \<not> current_status then NowEnabled service_name else NowDisabled service_name,
                     c\<lparr>cfg_services :=
                         Some (dict_modify service_name
                                 (\<lambda>s. s\<lparr>enabled := Some (\<not> current_status)\<rparr>) svcs)\<rparr>))
           | None \<Rightarrow> Inr (ServiceNotFound service_name, c)))"

text \<open>Running the function again on the registry the first run left behind.\<close>

definition toggle_twice :: "string \<Rightarrow> config \<Rightarrow> error + toggle_message \<times> config" where
  "toggle_twice service_name c =
     (case toggle_service service_name c of
        Inl e \<Rightarrow> Inl e
      | Inr (m, c') \<Rightarrow> toggle_service service_name c')"

section \<open>\<^verbatim>\<open>ServiceConfigurator\<close>: editing one port\<close>

text \<open>\<^verbatim>\<open>check_port_conflict\<close>: the inner loop, and the outer loop with its early return.\<close>

fun port_in_use :: "string \<Rightarrow> int \<Rightarrow> port_mapping list \<Rightarrow> bool" where
  "port_in_use ip port [] = False"
| "port_in_use ip port (port_config # rest) =
     (if host_ip port_config = ip \<and> host_port port_config = port then True
      else port_in_use ip port rest)"

fun conflict_loop :: "string \<Rightarrow> string \<Rightarrow> int \<Rightarrow> (string \<times> service) list \<Rightarrow> bool" where
  "conflict_loop current_service ip port [] = False"
| "conflict_loop current_service ip port ((service_name, service_config) # rest) =
     (if service_name = current_service \<or> \<not> is_enabled service_config
      then conflict_loop current_service ip port rest
      else if port_in_use ip port (ports_of service_config) then True
      else conflict_loop current_service ip port rest)"

definition check_port_conflict :: "string \<Rightarrow> string \<Rightarrow> int \<Rightarrow> config \<Rightarrow> error + bool" where
  "check_port_conflict current_service ip port c =
     (case cfg_services c of
        None \<Rightarrow> Inl (KeyError ''services'')
      | Some svcs \<Rightarrow> Inr (conflict_loop current_service ip port svcs))"

text \<open>
  \<^verbatim>\<open>int(s)\<close> on ASCII text that \<^verbatim>\<open>strip()\<close> has already trimmed: an optional sign, then
  decimal digits that may be grouped by single underscores. \<open>None\<close> is \<^verbatim>\<open>ValueError\<close>,
  which the interpreter also raises, in its default setting, for more than 4300 digits.
\<close>

definition is_digit :: "char \<Rightarrow> bool" where
  "is_digit c = (c \<in> set ''0123456789'')"

definition digit_value :: "char \<Rightarrow> nat" where
  "digit_value c = of_char c - 48"

fun well_grouped :: "string \<Rightarrow> bool" where
  "well_grouped [] = False"
| "well_grouped [c] = is_digit c"
| "well_grouped (c # d # rest) =
     (is_digit c \<and> (if d = CHR ''_'' then well_grouped rest else well_grouped (d # rest)))"

definition digits_value :: "string \<Rightarrow> nat" where
  "digits_value s = foldl (\<lambda>a c. 10 * a + digit_value c) 0 (filter (\<lambda>c. c \<noteq> CHR ''_'') s)"

definition int_max_str_digits :: nat where
  "int_max_str_digits = 4300"

definition parse_digits :: "string \<Rightarrow> nat option" where
  "parse_digits s =
     (if well_grouped s \<and> length (filter is_digit s) \<le> int_max_str_digits
      then Some (digits_value s) else None)"

definition py_int :: "string \<Rightarrow> int option" where
  "py_int s =
     (case s of
        [] \<Rightarrow> None
      | c # rest \<Rightarrow>
          if c = CHR ''-'' then map_option (\<lambda>n. - int n) (parse_digits rest)
          else if c = CHR ''+'' then map_option int (parse_digits rest)
          else map_option int (parse_digits s))"

text \<open>\<^verbatim>\<open>xs[i]\<close>: a negative index counts from the end; out of range raises.\<close>

definition list_index :: "'a list \<Rightarrow> int \<Rightarrow> nat option" where
  "list_index xs i =
     (if 0 \<le> i \<and> i < int (length xs) then Some (nat i)
      else if i < 0 \<and> - int (length xs) \<le> i then Some (nat (int (length xs) + i))
      else None)"

text \<open>
  \<open>port_config\<close> is a reference into the registry: an assignment to one of its keys is an
  update of the registry at that service and that index.
\<close>

definition set_port :: "string \<Rightarrow> nat \<Rightarrow> (port_mapping \<Rightarrow> port_mapping) \<Rightarrow> config \<Rightarrow> config" where
  "set_port service_name j f c =
     c\<lparr>cfg_services :=
         Some (dict_modify service_name
                 (\<lambda>s. s\<lparr>ports := Some ((ports_of s)[j := f (ports_of s ! j)])\<rparr>)
                 (get_or [] (cfg_services c)))\<rparr>"


text \<open>What \<^verbatim>\<open>edit_single_port\<close> prints after its two prompts, in order.\<close>

datatype edit_message =
    HostIpUpdated string
  | PortConflictDetected int
  | HostPortUpdated int
  | InvalidPortRange
  | InvalidPortNumber
  | UpdatedSuccessfully

text \<open>
  \<open>new_ip\<close> and \<open>new_port_str\<close> are the two answers after \<^verbatim>\<open>strip()\<close>. The function raises
  only while it locates \<open>port_config\<close>, before any change. The address is stored as soon as
  it is read; the port is parsed and checked afterwards, against the address as it then is.
\<close>

definition edit_single_port ::
  "string \<Rightarrow> int \<Rightarrow> string \<Rightarrow> string \<Rightarrow> config \<Rightarrow> error + edit_message list \<times> config" where
  "edit_single_port service_name port_index new_ip new_port_str c =
     (case cfg_services c of
        None \<Rightarrow> Inl (KeyError ''services'')
      | Some svcs \<Rightarrow>
     (case map_of svcs service_name of
        None \<Rightarrow> Inl (KeyError service_name)
      | Some service_config \<Rightarrow>
     (case ports service_config of
        None \<Rightarrow> Inl (KeyError ''ports'')
      | Some ps \<Rightarrow>
     (case list_index ps port_index of
        None \<Rightarrow> Inl IndexError
      | Some j \<Rightarrow>
          (let port_config = ps ! j;
               current_ip = host_ip port_config;
               ip_changed = (new_ip \<noteq> [] \<and> new_ip \<noteq> current_ip);
               c1 = (if ip_changed then set_port service_name j (\<lambda>p. p\<lparr>host_ip := new_ip\<rparr>) c else c);
               m1 = (if ip_changed then [HostIpUpdated new_ip] else []);
               ip1 = (if ip_changed then new_ip else current_ip);
               current_port = host_port port_config
           in if new_port_str = [] then Inr (m1 @ [UpdatedSuccessfully], c1)
              else case py_int new_port_str of
                None \<Rightarrow> Inr (m1 @ [InvalidPortNumber, UpdatedSuccessfully], c1)
              | Some new_port \<Rightarrow>
                  if 1 \<le> new_port \<and> new_port \<le> 65535 then
                    (if new_port \<noteq> current_port then
                       (case check_port_conflict service_name ip1 new_port c1 of
                          Inl e \<Rightarrow> Inl e
                        | Inr conflict \<Rightarrow>
                            if conflict then Inr (m1 @ [PortConflictDetected new_port], c1)
                            else Inr (m1 @ [HostPortUpdated new_port, UpdatedSuccessfully],
                                      set_port service_name j (\<lambda>p. p\<lparr>host_port := new_port\<rparr>) c1))
                     else Inr (m1 @ [UpdatedSuccessfully], c1))
                  else Inr (m1 @ [InvalidPortRange, UpdatedSuccessfully], c1))))))"

section \<open>\<^verbatim>\<open>ServiceManager._substitute_variables\<close>\<close>

text \<open>
  The substitution runs on what \<^verbatim>\<open>json.load\<close> returns, before any field is read: a tree
  of dictionaries, lists and scalars. A number that is not an integer is carried by its
  literal; no function here looks inside it.
\<close>

datatype json =
    JNull
  | JBool bool
  | JInt int
  | JFloat string
  | JStr string
  | JList "json list"
  | JDict "(string \<times> json) list"

definition placeholder :: string where
  "placeholder = ''${default_host_ip}''"

text \<open>
  \<^verbatim>\<open>substitute_recursive\<close>, with the value \<open>d\<close> of the enclosing \<^verbatim>\<open>default_host_ip\<close>. A
  dictionary and a list are rewritten entry by entry, in order; a string is replaced by
  \<^verbatim>\<open>obj.replace('${default_host_ip}', default_host_ip)\<close>, which raises \<^verbatim>\<open>TypeError\<close> when
  \<open>d\<close> is not a string; anything else is returned as it is. Keys are not touched.
\<close>

fun substitute_recursive :: "json \<Rightarrow> json \<Rightarrow> error + json"
and substitute_list :: "json \<Rightarrow> json list \<Rightarrow> error + json list"
and substitute_items :: "json \<Rightarrow> (string \<times> json) list \<Rightarrow> error + (string \<times> json) list"
where
  "substitute_recursive d (JDict items) =
     (case substitute_items d items of Inl e \<Rightarrow> Inl e | Inr items' \<Rightarrow> Inr (JDict items'))"
| "substitute_recursive d (JList xs) =
     (case substitute_list d xs of Inl e \<Rightarrow> Inl e | Inr xs' \<Rightarrow> Inr (JList xs'))"
| "substitute_recursive d (JStr s) =
     (case d of JStr v \<Rightarrow> Inr (JStr (str_replace placeholder v s)) | _ \<Rightarrow> Inl TypeError)"
| "substitute_recursive d obj = Inr obj"
| "substitute_list d [] = Inr []"
| "substitute_list d (x # xs) =
     (case substitute_recursive d x of
        Inl e \<Rightarrow> Inl e
      | Inr x' \<Rightarrow> (case substitute_list d xs of Inl e \<Rightarrow> Inl e | Inr xs' \<Rightarrow> Inr (x' # xs')))"
| "substitute_items d [] = Inr []"
| "substitute_items d ((key, value) # rest) =
     (case substitute_recursive d value of
        Inl e \<Rightarrow> Inl e
      | Inr value' \<Rightarrow>
          (case substitute_items d rest of
             Inl e \<Rightarrow> Inl e
           | Inr rest' \<Rightarrow> Inr ((key, value') # rest')))"

text \<open>
  \<^verbatim>\<open>config.get('global', {}).get('default_host_ip', '127.0.0.1')\<close>: \<^verbatim>\<open>.get\<close> exists on
  dictionaries only.
\<close>

definition resolved_default :: "json \<Rightarrow> error + json" where
  "resolved_default config =
     (case config of
        JDict items \<Rightarrow>
          (case map_of items ''global'' of
             None \<Rightarrow> Inr (JStr ''127.0.0.1'')
           | Some (JDict g) \<Rightarrow> Inr (get_or (JStr ''127.0.0.1'') (map_of g ''default_host_ip''))
           | Some _ \<Rightarrow> Inl AttributeError)
      | _ \<Rightarrow> Inl AttributeError)"

text \<open>
  The pass changes the tree in place and \<^verbatim>\<open>load_config\<close> returns it; an exception leaves
  \<^verbatim>\<open>load_config\<close> without a registry. The model returns the tree or the exception.
\<close>

definition substitute_variables :: "json \<Rightarrow> error + json" where
  "substitute_variables config =
     (case resolved_default config of
        Inl e \<Rightarrow> Inl e
      | Inr d \<Rightarrow> substitute_recursive d config)"

text \<open>
  Two words overlap when one occurs inside the other, or a non-empty ending of one is a
  beginning of the other.
\<close>

definition overlap_free :: "string \<Rightarrow> string \<Rightarrow> bool" where
  "overlap_free v tok \<longleftrightarrow>
     \<not> sublist tok v \<and> \<not> sublist v tok
     \<and> \<not> list_ex (\<lambda>x. x \<noteq> [] \<and> prefix x tok) (suffixes v)
     \<and> \<not> list_ex (\<lambda>x. x \<noteq> [] \<and> suffix x tok) (prefixes v)"

section \<open>Building sample registries\<close>

text \<open>Shorthands for writing concrete registries: every field not given is absent.\<close>

definition mk_port :: "string \<Rightarrow> int \<Rightarrow> int \<Rightarrow> port_mapping" where
  "mk_port ip hp cp = \<lparr>host_ip = ip, host_port = hp, container_port = cp, protocol = None\<rparr>"

definition mk_service :: "bool option \<Rightarrow> port_mapping list \<Rightarrow> service" where
  "mk_service e ps = \<lparr>enabled = e, category = None, description = None, ports = Some ps,
     profiles = None, reverse_proxy = None\<rparr>"

definition mk_config :: "(string \<times> service) list \<Rightarrow> (string \<times> profile) list \<Rightarrow> config" where
  "mk_config svcs ps = \<lparr>cfg_global = Some \<lparr>project_name = None, default_host_ip = None\<rparr>,
     cfg_services = Some svcs, cfg_profiles = Some ps\<rparr>"

section \<open>Facts about integer rendering\<close>

lemma digit_char_inj: "m < 10 \<Longrightarrow> n < 10 \<Longrightarrow> digit_char m = digit_char n \<Longrightarrow> m = n"
proof -
  assume m: "m < 10" and n: "n < 10" and e: "digit_char m = digit_char n"
  from m have "m \<in> {0,1,2,3,4,5,6,7,8,9}" by auto
  moreover from n have "n \<in> {0,1,2,3,4,5,6,7,8,9}" by auto
  ultimately show ?thesis using e by (auto simp: digit_char_def)
qed

lemma digit_char_digit: "n < 10 \<Longrightarrow> digit_char n \<in> set ''0123456789''"
  unfolding digit_char_def by (rule nth_mem) simp

lemma str_nat_not_Nil: "str_nat n \<noteq> []"
  by (subst str_nat.simps) simp

lemma str_nat_digits: "set (str_nat n) \<subseteq> set ''0123456789''"
proof (induction n rule: str_nat.induct)
  case (1 n)
  show ?case
  proof (cases "n < 10")
    case True
    then show ?thesis using digit_char_digit [of n] by (subst str_nat.simps) simp
  next
    case False
    have "n mod 10 < 10" by simp
    then have "digit_char (n mod 10) \<in> set ''0123456789''" by (rule digit_char_digit)
    with False 1 show ?thesis by (subst str_nat.simps) simp
  qed
qed

lemma str_nat_inj: "str_nat m = str_nat n \<Longrightarrow> m = n"
proof (induction m arbitrary: n rule: str_nat.induct)
  case (1 m)
  show ?case
  proof (cases "m < 10")
    case mt: True
    show ?thesis
    proof (cases "n < 10")
      case True
      with mt "1.prems" show ?thesis
        by (simp add: str_nat.simps [of m] str_nat.simps [of n] digit_char_inj)
    next
      case False
      with mt "1.prems" str_nat_not_Nil [of "n div 10"] show ?thesis
        by (simp add: str_nat.simps [of m] str_nat.simps [of n])
    qed
  next
    case mf: False
    show ?thesis
    proof (cases "n < 10")
      case True
      with mf "1.prems" str_nat_not_Nil [of "m div 10"] show ?thesis
        by (simp add: str_nat.simps [of m] str_nat.simps [of n])
    next
      case False
      with mf "1.prems" have e: "str_nat (m div 10) = str_nat (n div 10)"
        and d: "digit_char (m mod 10) = digit_char (n mod 10)"
        by (simp_all add: str_nat.simps [of m] str_nat.simps [of n])
      from "1.IH" [OF mf e] have "m div 10 = n div 10" .
      moreover from d have "m mod 10 = n mod 10" by (intro digit_char_inj) simp_all
      ultimately show ?thesis by (metis div_mult_mod_eq)
    qed
  qed
qed

lemma str_int_no_colon: "CHR '':'' \<notin> set (str_int i)"
  using str_nat_digits [of "nat i"] str_nat_digits [of "nat (- i)"]
  by (auto simp: str_int_def)

lemma str_nat_no_minus: "hd (str_nat n) \<noteq> CHR ''-''"
proof -
  have "hd (str_nat n) \<in> set (str_nat n)" by (simp add: str_nat_not_Nil)
  with str_nat_digits [of n] show ?thesis by auto
qed

lemma str_int_inj: "str_int i = str_int j \<Longrightarrow> i = j"
proof -
  assume e: "str_int i = str_int j"
  consider "i < 0" "j < 0" | "i < 0" "\<not> j < 0" | "\<not> i < 0" "j < 0" | "\<not> i < 0" "\<not> j < 0"
    by blast
  then show ?thesis
  proof cases
    case 1
    with e have "nat (- i) = nat (- j)" by (auto simp: str_int_def dest: str_nat_inj)
    with 1 show ?thesis by simp
  next
    case 2
    with e have "str_nat (nat j) = CHR ''-'' # str_nat (nat (- i))" by (simp add: str_int_def)
    with str_nat_no_minus [of "nat j"] show ?thesis by simp
  next
    case 3
    with e have "str_nat (nat i) = CHR ''-'' # str_nat (nat (- j))" by (simp add: str_int_def)
    with str_nat_no_minus [of "nat i"] show ?thesis by simp
  next
    case 4
    with e have "nat i = nat j" by (auto simp: str_int_def dest: str_nat_inj)
    with 4 show ?thesis by simp
  qed
qed

lemma split_at_last_sep:
  assumes "a @ c # s = b @ c # t" and "c \<notin> set s" and "c \<notin> set t"
  shows "a = b \<and> s = t"
  using assms
proof (induction a arbitrary: b)
  case Nil
  then show ?case by (cases b) auto
next
  case (Cons x a)
  then show ?case by (cases b) auto
qed

lemma port_key_eq_iff: "port_key p = port_key q \<longleftrightarrow> host_pair p = host_pair q"
proof
  assume "port_key p = port_key q"
  then have "host_ip p @ CHR '':'' # str_int (host_port p)
           = host_ip q @ CHR '':'' # str_int (host_port q)"
    by (simp add: port_key_def)
  from split_at_last_sep [OF this str_int_no_colon str_int_no_colon]
  show "host_pair p = host_pair q" by (auto simp: host_pair_def dest: str_int_inj)
next
  assume "host_pair p = host_pair q"
  then show "port_key p = port_key q" by (simp add: host_pair_def port_key_def)
qed

section \<open>Facts about the conflict scan\<close>

lemma scan_append:
  "scan (xs @ ys) used = (case scan xs used of Inl v \<Rightarrow> Inl v | Inr u \<Rightarrow> scan ys u)"
proof (induction xs arbitrary: used)
  case Nil
  show ?case by simp
next
  case (Cons x xs)
  obtain n p where x: "x = (n, p)" by (cases x)
  show ?case using Cons by (simp add: x split: option.splits)
qed

lemma check_ports_scan: "check_ports n ps used = scan (map (Pair n) ps) used"
  by (induction ps arbitrary: used) (auto split: option.splits)

lemma check_services_scan: "check_services svcs used = scan (enabled_bindings svcs) used"
proof (induction svcs used rule: check_services.induct)
  case (1 used)
  show ?case by (simp add: enabled_bindings_def)
next
  case (2 service_name service_config rest used)
  show ?case
  proof (cases "is_enabled service_config")
    case False
    with 2 show ?thesis by (simp add: enabled_bindings_def)
  next
    case True
    have e: "enabled_bindings ((service_name, service_config) # rest)
           = map (Pair service_name) (ports_of service_config) @ enabled_bindings rest"
      using True by (simp add: enabled_bindings_def)
    show ?thesis
      using True 2 by (simp add: e scan_append check_ports_scan split: sum.splits)
  qed
qed

lemma scan_Inr_iff:
  "(\<exists>u. scan occs used = Inr u) \<longleftrightarrow>
     distinct (map (port_key \<circ> snd) occs) \<and> (\<forall>(n, p) \<in> set occs. map_of used (port_key p) = None)"
proof (induction occs arbitrary: used)
  case Nil
  show ?case by simp
next
  case (Cons x rest)
  obtain n p where x: "x = (n, p)" by (cases x)
  show ?case
  proof (cases "map_of used (port_key p)")
    case (Some owner)
    then show ?thesis by (auto simp: x)
  next
    case None
    have "(\<exists>u. scan (x # rest) used = Inr u) \<longleftrightarrow> (\<exists>u. scan rest ((port_key p, n) # used) = Inr u)"
      using None by (simp add: x)
    also have "\<dots> \<longleftrightarrow> distinct (map (port_key \<circ> snd) rest)
        \<and> (\<forall>(m, q) \<in> set rest. map_of ((port_key p, n) # used) (port_key q) = None)"
      by (rule Cons.IH)
    also have "\<dots> \<longleftrightarrow> distinct (map (port_key \<circ> snd) (x # rest))
        \<and> (\<forall>(m, q) \<in> set (x # rest). map_of used (port_key q) = None)"
      using None by (force simp: x image_iff split: if_splits)
    finally show ?thesis .
  qed
qed

lemma scan_result: "(\<exists>u. scan occs used = Inr u) \<or> (\<exists>k a b. scan occs used = Inl (PortConflict k a b))"
proof (induction occs arbitrary: used)
  case Nil
  show ?case by simp
next
  case (Cons x rest)
  obtain n p where x: "x = (n, p)" by (cases x)
  show ?case using Cons [of "(port_key p, n) # used"] by (auto simp: x split: option.splits)
qed

lemma is_enabled_iff: "is_enabled s \<longleftrightarrow> enabled s = Some True"
  by (cases "enabled s") (simp_all add: is_enabled_def get_or_def)

lemma mem_enabled_bindings:
  "(n, p) \<in> set (enabled_bindings svcs) \<longleftrightarrow>
     (\<exists>s. (n, s) \<in> set svcs \<and> is_enabled s \<and> p \<in> set (ports_of s))"
  by (auto simp: enabled_bindings_def)

lemma distinct_keys_pairs:
  "distinct (map (port_key \<circ> snd) occs) \<longleftrightarrow> distinct (map (host_pair \<circ> snd) occs)"
proof (induction occs)
  case Nil
  show ?case by simp
next
  case (Cons x occs)
  have "port_key (snd x) \<in> (port_key \<circ> snd) ` set occs
        \<longleftrightarrow> host_pair (snd x) \<in> (host_pair \<circ> snd) ` set occs"
    by (simp add: image_iff port_key_eq_iff)
  with Cons show ?case by simp
qed

lemma validate_config_sections:
  assumes "cfg_global c = Some g" and "cfg_services c = Some svcs" and "cfg_profiles c = Some ps"
  shows "validate_config c = (case scan (enabled_bindings svcs) [] of Inl v \<Rightarrow> v | Inr u \<Rightarrow> Passed)"
  using assms by (simp add: validate_config_def check_services_scan)

lemma validate_config_passed_iff:
  assumes "cfg_global c = Some g" and "cfg_services c = Some svcs" and "cfg_profiles c = Some ps"
  shows "validate_config c = Passed \<longleftrightarrow> distinct (map (host_pair \<circ> snd) (enabled_bindings svcs))"
proof -
  have "validate_config c = Passed \<longleftrightarrow> (\<exists>u. scan (enabled_bindings svcs) [] = Inr u)"
    using scan_result [of "enabled_bindings svcs" "[]"]
    by (auto simp: validate_config_sections [OF assms])
  then show ?thesis by (simp add: scan_Inr_iff distinct_keys_pairs)
qed

lemma validate_config_result:
  assumes "cfg_global c = Some g" and "cfg_services c = Some svcs" and "cfg_profiles c = Some ps"
  shows "validate_config c = Passed \<or> (\<exists>k a b. validate_config c = PortConflict k a b)"
  using scan_result [of "enabled_bindings svcs" "[]"]
  by (auto simp: validate_config_sections [OF assms])

lemma scan_Inl_first:
  "scan occs used = Inl (PortConflict k a b) \<Longrightarrow>
     \<exists>pre q post u. occs = pre @ (b, q) # post \<and> port_key q = k
        \<and> scan pre used = Inr u \<and> map_of u k = Some a"
proof (induction occs arbitrary: used)
  case Nil
  then show ?case by simp
next
  case (Cons x rest)
  obtain n p where x: "x = (n, p)" by (cases x)
  show ?case
  proof (cases "map_of used (port_key p)")
    case (Some owner)
    with Cons.prems have "k = port_key p" "a = owner" "b = n" by (simp_all add: x)
    with Some have "x # rest = [] @ (b, p) # rest \<and> port_key p = k
        \<and> scan [] used = Inr used \<and> map_of used k = Some a"
      by (simp add: x)
    then show ?thesis by blast
  next
    case None
    with Cons.prems have "scan rest ((port_key p, n) # used) = Inl (PortConflict k a b)"
      by (simp add: x)
    from Cons.IH [OF this] obtain pre q post u where
      r: "rest = pre @ (b, q) # post" and kq: "port_key q = k"
      and s: "scan pre ((port_key p, n) # used) = Inr u" and m: "map_of u k = Some a"
      by blast
    have "x # rest = ((n, p) # pre) @ (b, q) # post" using r by (simp add: x)
    moreover have "scan ((n, p) # pre) used = Inr u" using None s by simp
    ultimately show ?thesis using kq m by blast
  qed
qed

lemma scan_Inr_owner:
  "scan occs used = Inr u \<Longrightarrow> map_of u k = Some a \<Longrightarrow>
     map_of used k = Some a \<or> (\<exists>p. (a, p) \<in> set occs \<and> port_key p = k)"
proof (induction occs arbitrary: used)
  case Nil
  then show ?case by simp
next
  case (Cons x rest)
  obtain n p where x: "x = (n, p)" by (cases x)
  from Cons.prems(1) have none: "map_of used (port_key p) = None"
    and s: "scan rest ((port_key p, n) # used) = Inr u"
    by (auto simp: x split: option.splits)
  from Cons.IH [OF s Cons.prems(2)]
  show ?case by (auto simp: x split: if_splits)
qed

lemma validate_config_conflict_names:
  assumes "cfg_global c = Some g" and "cfg_services c = Some svcs" and "cfg_profiles c = Some ps"
    and "validate_config c = PortConflict k a b"
  shows "\<exists>pre p mid q post. enabled_bindings svcs = pre @ (a, p) # mid @ (b, q) # post
           \<and> distinct (map (host_pair \<circ> snd) (pre @ (a, p) # mid))
           \<and> host_pair p = host_pair q \<and> k = host_ip q @ '':'' @ str_int (host_port q)"
proof -
  from assms(4) have "scan (enabled_bindings svcs) [] = Inl (PortConflict k a b)"
    by (simp add: validate_config_sections [OF assms(1-3)] split: sum.splits)
  from scan_Inl_first [OF this] obtain pre0 q post u where
    e: "enabled_bindings svcs = pre0 @ (b, q) # post" and kq: "port_key q = k"
    and s: "scan pre0 [] = Inr u" and m: "map_of u k = Some a"
    by blast
  from s have "\<exists>u. scan pre0 [] = Inr u" by blast
  then have d: "distinct (map (host_pair \<circ> snd) pre0)"
    by (simp add: scan_Inr_iff distinct_keys_pairs)
  from scan_Inr_owner [OF s m] obtain p where mp: "(a, p) \<in> set pre0" and kp: "port_key p = k"
    by auto
  from mp obtain pre mid where p0: "pre0 = pre @ (a, p) # mid" by (auto simp: in_set_conv_decomp)
  with e have "enabled_bindings svcs = pre @ (a, p) # mid @ (b, q) # post" by simp
  moreover from d p0 have "distinct (map (host_pair \<circ> snd) (pre @ (a, p) # mid))" by simp
  moreover from kp kq have "host_pair p = host_pair q" by (simp add: port_key_eq_iff [symmetric])
  moreover from kq have "k = host_ip q @ '':'' @ str_int (host_port q)" by (simp add: port_key_def)
  ultimately show ?thesis by blast
qed

lemma enabled_bindings_append:
  "enabled_bindings (xs @ ys) = enabled_bindings xs @ enabled_bindings ys"
  by (simp add: enabled_bindings_def)

lemma enabled_bindings_Cons:
  "enabled_bindings ((n, s) # rest)
     = (if is_enabled s then map (Pair n) (ports_of s) else []) @ enabled_bindings rest"
  by (simp add: enabled_bindings_def)

lemma enabled_bindings_split:
  assumes "i < length svcs"
  shows "enabled_bindings svcs = enabled_bindings (take i svcs)
           @ (if is_enabled (snd (svcs ! i)) then map (Pair (fst (svcs ! i))) (ports_of (snd (svcs ! i))) else [])
           @ enabled_bindings (drop (Suc i) svcs)"
proof -
  have "svcs = take i svcs @ (fst (svcs ! i), snd (svcs ! i)) # drop (Suc i) svcs"
    using assms by (simp add: id_take_nth_drop)
  then have "enabled_bindings svcs
      = enabled_bindings (take i svcs @ (fst (svcs ! i), snd (svcs ! i)) # drop (Suc i) svcs)"
    by simp
  then show ?thesis by (simp only: enabled_bindings_append enabled_bindings_Cons append_assoc)
qed

lemma two_services_not_distinct:
  assumes "i < j" and "j < length svcs"
    and "is_enabled (snd (svcs ! i))" and "is_enabled (snd (svcs ! j))"
    and "p \<in> set (ports_of (snd (svcs ! i)))" and "q \<in> set (ports_of (snd (svcs ! j)))"
    and "host_pair p = host_pair q"
  shows "\<not> distinct (map (host_pair \<circ> snd) (enabled_bindings svcs))"
proof -
  from assms(1,2) have il: "i < length svcs" by simp
  have "svcs ! j \<in> set (drop (Suc i) svcs)"
  proof -
    have "drop (Suc i) svcs ! (j - Suc i) = svcs ! j" using assms(1,2) by simp
    moreover have "j - Suc i < length (drop (Suc i) svcs)" using assms(1,2) by simp
    ultimately show ?thesis by (metis nth_mem)
  qed
  then have "(fst (svcs ! j), snd (svcs ! j)) \<in> set (drop (Suc i) svcs)" by simp
  with assms(4,6) have "(fst (svcs ! j), q) \<in> set (enabled_bindings (drop (Suc i) svcs))"
    unfolding mem_enabled_bindings by blast
  then have "host_pair q \<in> set (map (host_pair \<circ> snd) (enabled_bindings (drop (Suc i) svcs)))"
    by force
  moreover have "host_pair p \<in> set (map (host_pair \<circ> snd)
      (map (Pair (fst (svcs ! i))) (ports_of (snd (svcs ! i)))))"
    using assms(5) by force
  ultimately show ?thesis
    using assms(3,7) by (auto simp: enabled_bindings_split [OF il])
qed

lemma shared_by_two_services_not_distinct:
  assumes "shared_by_two_services svcs"
  shows "\<not> distinct (map (host_pair \<circ> snd) (enabled_bindings svcs))"
proof -
  from assms obtain i j p q where
    "i < length svcs" "j < length svcs" "i \<noteq> j"
    "is_enabled (snd (svcs ! i))" "is_enabled (snd (svcs ! j))"
    "p \<in> set (ports_of (snd (svcs ! i)))" "q \<in> set (ports_of (snd (svcs ! j)))"
    "host_pair p = host_pair q"
    by (auto simp: shared_by_two_services_def list_ex_iff)
  then show ?thesis
    using two_services_not_distinct [of i j svcs p q] two_services_not_distinct [of j i svcs q p]
    by (cases "i < j") auto
qed

section \<open>Port conflicts found by validation\<close>

text \<open>
  C1 (as amended). For every registry that has its three sections, validation reports a
  port conflict if and only if the port mappings of the enabled services, taken together in
  registry order, repeat a (host_ip, host_port) pair; the two mappings may belong to two
  services or to one. Two different enabled services sharing a pair are one such case.
  Mappings of services that are not enabled do not take part. The diagnostic belongs to
  the first mapping of the scan that repeats a pair: it names the enabled service that
  declared the pair before, then the enabled service declaring it again, and the key is
  \<open>host_ip:host_port\<close> of that pair.
\<close>

theorem validate_config_port_conflict:
  assumes "cfg_global c = Some g" and "cfg_services c = Some svcs" and "cfg_profiles c = Some ps"
  shows "((\<exists>k a b. validate_config c = PortConflict k a b)
            \<longleftrightarrow> \<not> distinct (map (host_pair \<circ> snd) (enabled_bindings svcs)))
       \<and> (shared_by_two_services svcs \<longrightarrow> (\<exists>k a b. validate_config c = PortConflict k a b))
       \<and> (\<forall>k a b. validate_config c = PortConflict k a b \<longrightarrow>
            (\<exists>pre p mid q post sa sb.
                enabled_bindings svcs = pre @ (a, p) # mid @ (b, q) # post
              \<and> distinct (map (host_pair \<circ> snd) (pre @ (a, p) # mid))
              \<and> (a, sa) \<in> set svcs \<and> is_enabled sa \<and> p \<in> set (ports_of sa)
              \<and> (b, sb) \<in> set svcs \<and> is_enabled sb \<and> q \<in> set (ports_of sb)
              \<and> host_ip p = host_ip q \<and> host_port p = host_port q
              \<and> k = host_ip q @ '':'' @ str_int (host_port q)))"
proof (intro conjI allI impI)
  show iff: "(\<exists>k a b. validate_config c = PortConflict k a b)
      \<longleftrightarrow> \<not> distinct (map (host_pair \<circ> snd) (enabled_bindings svcs))"
    using validate_config_result [OF assms] validate_config_passed_iff [OF assms] by auto
  show "\<exists>k a b. validate_config c = PortConflict k a b" if "shared_by_two_services svcs"
    using iff shared_by_two_services_not_distinct [OF that] by simp
next
  fix k a b
  assume v: "validate_config c = PortConflict k a b"
  from validate_config_conflict_names [OF assms v] obtain pre p mid q post where
    e: "enabled_bindings svcs = pre @ (a, p) # mid @ (b, q) # post"
    and d: "distinct (map (host_pair \<circ> snd) (pre @ (a, p) # mid))"
    and h: "host_pair p = host_pair q" and k: "k = host_ip q @ '':'' @ str_int (host_port q)"
    by blast
  from e have "(a, p) \<in> set (enabled_bindings svcs)" "(b, q) \<in> set (enabled_bindings svcs)"
    by simp_all
  then obtain sa sb where "(a, sa) \<in> set svcs" "is_enabled sa" "p \<in> set (ports_of sa)"
    "(b, sb) \<in> set svcs" "is_enabled sb" "q \<in> set (ports_of sb)"
    unfolding mem_enabled_bindings by blast
  with e d h k show "\<exists>pre p mid q post sa sb.
                enabled_bindings svcs = pre @ (a, p) # mid @ (b, q) # post
              \<and> distinct (map (host_pair \<circ> snd) (pre @ (a, p) # mid))
              \<and> (a, sa) \<in> set svcs \<and> is_enabled sa \<and> p \<in> set (ports_of sa)
              \<and> (b, sb) \<in> set svcs \<and> is_enabled sb \<and> q \<in> set (ports_of sb)
              \<and> host_ip p = host_ip q \<and> host_port p = host_port q
              \<and> k = host_ip q @ '':'' @ str_int (host_port q)"
    unfolding host_pair_def by blast
qed

lemmas eval_validate = validate_config_def mk_config_def mk_service_def mk_port_def
  is_enabled_def ports_of_def get_or_def port_key_def str_int_def str_nat.simps digit_char_def

text \<open>
  The registry of the specification's example: enabled services \<open>a\<close> (127.0.0.1:8000 to 80)
  and \<open>b\<close> (127.0.0.1:8000 to 81). Validation names \<open>a\<close>, \<open>b\<close> and 127.0.0.1:8000.
\<close>

theorem validate_config_port_conflict_witness:
  "validate_config (mk_config
       [(''a'', mk_service (Some True) [mk_port ''127.0.0.1'' 8000 80]),
        (''b'', mk_service (Some True) [mk_port ''127.0.0.1'' 8000 81])] [])
     = PortConflict ''127.0.0.1:8000'' ''a'' ''b''
   \<and> shared_by_two_services
       [(''a'', mk_service (Some True) [mk_port ''127.0.0.1'' 8000 80]),
        (''b'', mk_service (Some True) [mk_port ''127.0.0.1'' 8000 81])]
   \<and> \<not> distinct (map (host_pair \<circ> snd) (enabled_bindings
       [(''a'', mk_service (Some True) [mk_port ''127.0.0.1'' 8000 80]),
        (''b'', mk_service (Some True) [mk_port ''127.0.0.1'' 8000 81])]))"
proof -
  let ?svcs = "[(''a'', mk_service (Some True) [mk_port ''127.0.0.1'' 8000 80]),
        (''b'', mk_service (Some True) [mk_port ''127.0.0.1'' 8000 81])]"
  have v: "validate_config (mk_config ?svcs []) = PortConflict ''127.0.0.1:8000'' ''a'' ''b''"
    by (simp add: eval_validate)
  have s: "shared_by_two_services ?svcs"
    by (simp add: shared_by_two_services_def mk_service_def mk_port_def is_enabled_def
        ports_of_def get_or_def host_pair_def upt_rec)
  have "cfg_global (mk_config ?svcs []) = Some \<lparr>project_name = None, default_host_ip = None\<rparr>"
    "cfg_services (mk_config ?svcs []) = Some ?svcs" "cfg_profiles (mk_config ?svcs []) = Some []"
    by (simp_all add: mk_config_def)
  from validate_config_port_conflict [OF this] v s show ?thesis by simp
qed

text \<open>
  The claim as stated fails: one enabled service declaring 127.0.0.1:8000 twice is
  reported as a conflict, although no two services share a pair.
\<close>

theorem validate_config_two_services_counterexample:
  "validate_config (mk_config
       [(''a'', mk_service (Some True) [mk_port ''127.0.0.1'' 8000 80, mk_port ''127.0.0.1'' 8000 81])] [])
     = PortConflict ''127.0.0.1:8000'' ''a'' ''a''
   \<and> \<not> shared_by_two_services
       [(''a'', mk_service (Some True) [mk_port ''127.0.0.1'' 8000 80, mk_port ''127.0.0.1'' 8000 81])]"
  by (simp add: eval_validate shared_by_two_services_def upt_rec)

section \<open>A conflict inside one service\<close>

lemma map_Pair_decomp:
  assumes "map (Pair n) xs = pre @ (a, p) # mid @ (b, q) # post"
  shows "a = n \<and> b = n \<and> xs = map snd pre @ p # map snd mid @ q # map snd post"
proof -
  have "(a, p) \<in> set (map (Pair n) xs)" "(b, q) \<in> set (map (Pair n) xs)"
    unfolding assms by simp_all
  then have "a = n" "b = n" by auto
  moreover have "map snd (map (Pair n) xs) = xs" by (simp add: comp_def)
  then have "xs = map snd (pre @ (a, p) # mid @ (b, q) # post)" unfolding assms by simp
  ultimately show ?thesis by simp
qed

lemma duplicate_not_distinct:
  assumes "i < j" and "j < length xs" and "f (xs ! i) = f (xs ! j)"
  shows "\<not> distinct (map f xs)"
proof
  assume d: "distinct (map f xs)"
  have "i < length (map f xs)" "j < length (map f xs)" using assms(1,2) by simp_all
  with d have "map f xs ! i = map f xs ! j \<longleftrightarrow> i = j" by (rule nth_eq_iff_index_eq)
  with assms show False by simp
qed

lemma first_conflict_inside:
  assumes occ: "B @ map (Pair n) xs @ A = pre @ (a, p) # mid @ (b, q) # post"
    and dP: "distinct (map (host_pair \<circ> snd) (pre @ (a, p) # mid))"
    and pq: "host_pair p = host_pair q"
    and dB: "distinct (map (host_pair \<circ> snd) B)"
    and disj: "set (map (host_pair \<circ> snd) B) \<inter> set (map host_pair xs) = {}"
    and dup: "\<not> distinct (map host_pair xs)"
  shows "a = n \<and> b = n \<and> (\<exists>pre' mid' post'. xs = pre' @ p # mid' @ q # post'
           \<and> distinct (map host_pair (pre' @ p # mid')))"
proof -
  let ?P = "pre @ (a, p) # mid"
  let ?M = "map (Pair n) xs"
  have dM: "\<not> distinct (map (host_pair \<circ> snd) ?M)" using dup by (simp add: comp_def)
  from occ have "?P @ ((b, q) # post) = B @ (?M @ A)" by simp
  then obtain us where
    "(?P = B @ us \<and> us @ (b, q) # post = ?M @ A) \<or> (?P @ us = B \<and> (b, q) # post = us @ ?M @ A)"
    unfolding append_eq_append_conv2 by blast
  then have "\<exists>us. ?P = B @ us \<and> us @ (b, q) # post = ?M @ A"
  proof
    assume "?P = B @ us \<and> us @ (b, q) # post = ?M @ A"
    then show ?thesis by blast
  next
    assume r: "?P @ us = B \<and> (b, q) # post = us @ ?M @ A"
    show ?thesis
    proof (cases us)
      case Nil
      with r have "?P = B @ [] \<and> [] @ (b, q) # post = ?M @ A" by simp
      then show ?thesis by blast
    next
      case (Cons u us')
      with r have "B = pre @ (a, p) # mid @ (b, q) # us'" by auto
      with dB pq have False by simp
      then show ?thesis ..
    qed
  qed
  then obtain us where P: "?P = B @ us" and U: "us @ (b, q) # post = ?M @ A" by blast
  from U obtain vs where
    "(us = ?M @ vs \<and> vs @ (b, q) # post = A) \<or> (us @ vs = ?M \<and> (b, q) # post = vs @ A)"
    unfolding append_eq_append_conv2 by blast
  then have "\<exists>vs'. ?M = us @ (b, q) # vs'"
  proof
    assume "us = ?M @ vs \<and> vs @ (b, q) # post = A"
    with P have "?P = B @ ?M @ vs" by simp
    with dP have "distinct (map (host_pair \<circ> snd) ?M)" by (simp del: map_map)
    with dM show ?thesis by (rule notE)
  next
    assume r: "us @ vs = ?M \<and> (b, q) # post = vs @ A"
    show ?thesis
    proof (cases vs)
      case Nil
      with r P have "?P = B @ ?M" by simp
      with dP have "distinct (map (host_pair \<circ> snd) ?M)" by (simp del: map_map)
      with dM show ?thesis by (rule notE)
    next
      case (Cons v vs')
      with r have "?M = us @ (b, q) # vs'" by auto
      then show ?thesis by blast
    qed
  qed
  then obtain vs' where M: "?M = us @ (b, q) # vs'" by blast
  then have "(b, q) \<in> set ?M" by simp
  then have qx: "q \<in> set xs" by auto
  have "(a, p) \<in> set ?P" by simp
  with P have "(a, p) \<in> set B \<or> (a, p) \<in> set us" by auto
  moreover have "(a, p) \<notin> set B"
  proof
    assume "(a, p) \<in> set B"
    then have "host_pair p \<in> set (map (host_pair \<circ> snd) B)" by force
    moreover from qx pq have "host_pair p \<in> set (map host_pair xs)" by force
    ultimately show False using disj by blast
  qed
  ultimately have "(a, p) \<in> set us" by simp
  then obtain u1 u2 where us: "us = u1 @ (a, p) # u2" by (auto simp: in_set_conv_decomp)
  with M have "?M = u1 @ (a, p) # u2 @ (b, q) # vs'" by simp
  from map_Pair_decomp [OF this] have ab: "a = n" "b = n"
    and xs: "xs = map snd u1 @ p # map snd u2 @ q # map snd vs'" by simp_all
  from dP P have "distinct (map (host_pair \<circ> snd) us)" by (simp del: map_map)
  with us have "distinct (map host_pair (map snd u1 @ p # map snd u2))"
    by (simp add: comp_def)
  with ab xs show ?thesis by blast
qed

text \<open>
  C8 (as amended). A registry in which an enabled service declares two port mappings with
  the same (host_ip, host_port) never passes validation, and with the three sections
  present the failure is a port conflict. The diagnostic names that service as both
  owners, with the key of the first pair it repeats, when the enabled services before it
  in the service map neither repeat a pair nor share one with it; this is so in
  particular when it is the only enabled service.
\<close>

theorem validate_config_same_service_conflict:
  assumes "cfg_services c = Some (before @ (n, s) # after)" and "enabled s = Some True"
    and "i < j" and "j < length (ports_of s)"
    and "host_ip (ports_of s ! i) = host_ip (ports_of s ! j)"
    and "host_port (ports_of s ! i) = host_port (ports_of s ! j)"
  shows "\<not> validation_ok c
       \<and> (cfg_global c \<noteq> None \<and> cfg_profiles c \<noteq> None \<longrightarrow>
            (\<exists>k a b. validate_config c = PortConflict k a b))
       \<and> (cfg_global c \<noteq> None \<and> cfg_profiles c \<noteq> None
            \<and> distinct (map (host_pair \<circ> snd) (enabled_bindings before))
            \<and> set (map (host_pair \<circ> snd) (enabled_bindings before))
                 \<inter> set (map host_pair (ports_of s)) = {} \<longrightarrow>
            (\<exists>k pre p mid q post. validate_config c = PortConflict k n n
                \<and> ports_of s = pre @ p # mid @ q # post
                \<and> distinct (map host_pair (pre @ p # mid))
                \<and> host_ip p = host_ip q \<and> host_port p = host_port q
                \<and> k = host_ip q @ '':'' @ str_int (host_port q)))"
proof -
  let ?svcs = "before @ (n, s) # after"
  from assms(2) have en: "is_enabled s" by (simp add: is_enabled_iff)
  have hp: "host_pair (ports_of s ! i) = host_pair (ports_of s ! j)"
    using assms(5,6) by (simp add: host_pair_def)
  have dup: "\<not> distinct (map host_pair (ports_of s))"
    using assms(3,4) hp by (rule duplicate_not_distinct)
  have eb: "enabled_bindings ?svcs
      = enabled_bindings before @ map (Pair n) (ports_of s) @ enabled_bindings after"
    using en by (simp add: enabled_bindings_append enabled_bindings_Cons)
  have nd: "\<not> distinct (map (host_pair \<circ> snd) (enabled_bindings ?svcs))"
    using dup by (simp add: eb comp_def)
  have conflict: "\<exists>k a b. validate_config c = PortConflict k a b"
    if "cfg_global c \<noteq> None" "cfg_profiles c \<noteq> None"
  proof -
    from that obtain g ps where sec: "cfg_global c = Some g" "cfg_profiles c = Some ps" by auto
    show ?thesis
      using validate_config_result [OF sec(1) assms(1) sec(2)]
        validate_config_passed_iff [OF sec(1) assms(1) sec(2)] nd by auto
  qed
  have "\<not> validation_ok c"
  proof (cases "cfg_global c \<noteq> None \<and> cfg_profiles c \<noteq> None")
    case True
    with conflict show ?thesis by (auto simp: validation_ok_def)
  next
    case False
    then show ?thesis using assms(1) by (auto simp: validation_ok_def validate_config_def)
  qed
  moreover have "\<exists>k pre p mid q post. validate_config c = PortConflict k n n
                \<and> ports_of s = pre @ p # mid @ q # post
                \<and> distinct (map host_pair (pre @ p # mid))
                \<and> host_ip p = host_ip q \<and> host_port p = host_port q
                \<and> k = host_ip q @ '':'' @ str_int (host_port q)"
    if sec': "cfg_global c \<noteq> None" "cfg_profiles c \<noteq> None"
      and dB: "distinct (map (host_pair \<circ> snd) (enabled_bindings before))"
      and disj: "set (map (host_pair \<circ> snd) (enabled_bindings before))
                 \<inter> set (map host_pair (ports_of s)) = {}"
  proof -
    from sec' obtain g ps where sec: "cfg_global c = Some g" "cfg_profiles c = Some ps" by auto
    from conflict [OF sec'] obtain k a b where v: "validate_config c = PortConflict k a b" by blast
    from validate_config_conflict_names [OF sec(1) assms(1) sec(2) v]
    obtain pre p mid q post where
      e: "enabled_bindings ?svcs = pre @ (a, p) # mid @ (b, q) # post"
      and dP: "distinct (map (host_pair \<circ> snd) (pre @ (a, p) # mid))"
      and h: "host_pair p = host_pair q" and k: "k = host_ip q @ '':'' @ str_int (host_port q)"
      by blast
    from e eb have occ: "enabled_bindings before @ map (Pair n) (ports_of s) @ enabled_bindings after
        = pre @ (a, p) # mid @ (b, q) # post" by simp
    from first_conflict_inside [OF occ dP h dB disj dup] obtain pre' mid' post' where
      "a = n" "b = n" "ports_of s = pre' @ p # mid' @ q # post'"
      "distinct (map host_pair (pre' @ p # mid'))" by blast
    with v h k show ?thesis unfolding host_pair_def by blast
  qed
  ultimately show ?thesis using conflict by blast
qed

text \<open>
  A registry whose only enabled service \<open>a\<close> declares 127.0.0.1:8000 twice, after a
  service \<open>z\<close> that is not enabled: the diagnostic names \<open>a\<close> twice.
\<close>

theorem validate_config_same_service_conflict_witness:
  "\<not> validation_ok (mk_config
       [(''z'', mk_service (Some False) [mk_port ''127.0.0.1'' 8000 90]),
        (''a'', mk_service (Some True) [mk_port ''127.0.0.1'' 8000 80, mk_port ''127.0.0.1'' 8000 81])] [])
   \<and> validate_config (mk_config
       [(''z'', mk_service (Some False) [mk_port ''127.0.0.1'' 8000 90]),
        (''a'', mk_service (Some True) [mk_port ''127.0.0.1'' 8000 80, mk_port ''127.0.0.1'' 8000 81])] [])
     = PortConflict ''127.0.0.1:8000'' ''a'' ''a''"
proof -
  let ?a = "mk_service (Some True) [mk_port ''127.0.0.1'' 8000 80, mk_port ''127.0.0.1'' 8000 81]"
  let ?before = "[(''z'', mk_service (Some False) [mk_port ''127.0.0.1'' 8000 90])]"
  let ?c = "mk_config (?before @ (''a'', ?a) # []) []"
  have v: "validate_config ?c = PortConflict ''127.0.0.1:8000'' ''a'' ''a''"
    by (simp add: eval_validate)
  have "cfg_services ?c = Some (?before @ (''a'', ?a) # [])" "enabled ?a = Some True"
    "(0::nat) < 1" "1 < length (ports_of ?a)"
    "host_ip (ports_of ?a ! 0) = host_ip (ports_of ?a ! 1)"
    "host_port (ports_of ?a ! 0) = host_port (ports_of ?a ! 1)"
    by (simp_all add: mk_config_def mk_service_def mk_port_def ports_of_def get_or_def)
  from validate_config_same_service_conflict [OF this] v show ?thesis by simp
qed

text \<open>
  The claim as stated fails when another enabled service holds the pair first: \<open>x\<close>
  declares 127.0.0.1:8000 and \<open>s\<close> declares it twice; the diagnostic names \<open>x\<close> and \<open>s\<close>.
\<close>

theorem validate_config_same_service_counterexample:
  "validate_config (mk_config
       [(''x'', mk_service (Some True) [mk_port ''127.0.0.1'' 8000 80]),
        (''s'', mk_service (Some True) [mk_port ''127.0.0.1'' 8000 81, mk_port ''127.0.0.1'' 8000 82])] [])
     = PortConflict ''127.0.0.1:8000'' ''x'' ''s''
   \<and> PortConflict ''127.0.0.1:8000'' ''x'' ''s'' \<noteq> PortConflict ''127.0.0.1:8000'' ''s'' ''s''"
  by (simp add: eval_validate)

section \<open>Profile resolution\<close>

lemma enabled_loop_all:
  "profile = None \<or> profile = Some [] \<or> profile = Some ''all'' \<Longrightarrow>
     enabled_loop c profile svcs acc = acc @ map fst (filter (\<lambda>(n, s). is_enabled s) svcs)"
  by (induction c profile svcs acc rule: enabled_loop.induct) auto

lemma enabled_loop_profile:
  "pr \<noteq> [] \<Longrightarrow> pr \<noteq> ''all'' \<Longrightarrow>
     enabled_loop c (Some pr) svcs acc
       = acc @ map fst (filter (\<lambda>(n, s). is_enabled s
            \<and> (pr \<in> set (get_or [] (profiles s)) \<or> n \<in> set (profile_services c pr))) svcs)"
proof (induction svcs arbitrary: acc)
  case Nil
  show ?case by simp
next
  case (Cons x svcs)
  obtain n s where x: "x = (n, s)" by (cases x)
  show ?case using Cons by (simp add: x Let_def)
qed

lemma profile_services_mem:
  assumes "cfg_profiles c = Some pfs" and "map_of pfs pr = Some pd"
    and "included_services pd = Some incl" and "n \<in> set incl"
  shows "n \<in> set (profile_services c pr)"
  using assms by (simp add: profile_services_def get_or_def)

text \<open>
  C3. Resolving a profile name other than \<open>all\<close> returns a list that contains every
  enabled service that lists the profile among its own profiles, and every enabled service
  that the profile's \<open>included_services\<close> names: either signal alone is enough.
\<close>

theorem get_enabled_services_union:
  assumes "cfg_services c = Some svcs" and "(n, s) \<in> set svcs" and "enabled s = Some True"
    and "pr \<noteq> ''all''"
    and "(\<exists>own. profiles s = Some own \<and> pr \<in> set own)
       \<or> (\<exists>pfs pd incl. cfg_profiles c = Some pfs \<and> map_of pfs pr = Some pd
             \<and> included_services pd = Some incl \<and> n \<in> set incl)"
  shows "\<exists>names. get_enabled_services (Some pr) c = Inr names \<and> n \<in> set names"
proof -
  from assms(3) have en: "is_enabled s" by (simp add: is_enabled_iff)
  from assms(5) have sel: "pr \<in> set (get_or [] (profiles s)) \<or> n \<in> set (profile_services c pr)"
    by (auto simp: get_or_def intro: profile_services_mem)
  have "n \<in> set (enabled_loop c (Some pr) svcs [])"
  proof (cases "pr = []")
    case True
    then have "enabled_loop c (Some pr) svcs [] = [] @ map fst (filter (\<lambda>(n, s). is_enabled s) svcs)"
      by (intro enabled_loop_all) simp
    with assms(2) en show ?thesis by force
  next
    case False
    from enabled_loop_profile [OF False assms(4), of c svcs "[]"] assms(2) en sel
    show ?thesis by force
  qed
  with assms(1) show ?thesis by (simp add: get_enabled_services_def)
qed

lemmas eval_enabled = get_enabled_services_def mk_config_def mk_service_def
  is_enabled_def get_or_def profile_services_def Let_def

text \<open>
  Enabled services \<open>x\<close> (lists \<open>gpu\<close> itself, named by no profile), \<open>y\<close> (lists nothing, named
  by profile \<open>gpu\<close>) and \<open>z\<close> (neither): resolving \<open>gpu\<close> gives \<open>x\<close> and \<open>y\<close>.
\<close>

theorem get_enabled_services_union_witness:
  "get_enabled_services (Some ''gpu'')
     (mk_config
        [(''x'', (mk_service (Some True) [])\<lparr>profiles := Some [''gpu'']\<rparr>),
         (''y'', mk_service (Some True) []),
         (''z'', mk_service (Some True) [])]
        [(''gpu'', \<lparr>profile_description = None, included_services = Some [''y'']\<rparr>)])
   = Inr [''x'', ''y'']
   \<and> (\<exists>names. get_enabled_services (Some ''gpu'')
     (mk_config
        [(''x'', (mk_service (Some True) [])\<lparr>profiles := Some [''gpu'']\<rparr>),
         (''y'', mk_service (Some True) []),
         (''z'', mk_service (Some True) [])]
        [(''gpu'', \<lparr>profile_description = None, included_services = Some [''y'']\<rparr>)])
       = Inr names \<and> ''x'' \<in> set names \<and> ''y'' \<in> set names)"
proof -
  let ?x = "(mk_service (Some True) [])\<lparr>profiles := Some [''gpu'']\<rparr>"
  let ?y = "mk_service (Some True) []"
  let ?svcs = "[(''x'', ?x), (''y'', ?y), (''z'', mk_service (Some True) [])]"
  let ?pfs = "[(''gpu'', \<lparr>profile_description = None, included_services = Some [''y'']\<rparr>)]"
  let ?c = "mk_config ?svcs ?pfs"
  have v: "get_enabled_services (Some ''gpu'') ?c = Inr [''x'', ''y'']"
    by (simp add: eval_enabled)
  have sv: "cfg_services ?c = Some ?svcs" by (simp add: mk_config_def)
  have x: "\<exists>names. get_enabled_services (Some ''gpu'') ?c = Inr names \<and> ''x'' \<in> set names"
  proof (rule get_enabled_services_union [OF sv])
    show "(''x'', ?x) \<in> set ?svcs" by simp
    show "enabled ?x = Some True" by (simp add: mk_service_def)
    show "''gpu'' \<noteq> ''all''" by simp
    have "\<exists>own. profiles ?x = Some own \<and> ''gpu'' \<in> set own" by (simp add: mk_service_def)
    then show "(\<exists>own. profiles ?x = Some own \<and> ''gpu'' \<in> set own)
       \<or> (\<exists>pfs pd incl. cfg_profiles ?c = Some pfs \<and> map_of pfs ''gpu'' = Some pd
             \<and> included_services pd = Some incl \<and> ''x'' \<in> set incl)" by (rule disjI1)
  qed
  have y: "\<exists>names. get_enabled_services (Some ''gpu'') ?c = Inr names \<and> ''y'' \<in> set names"
  proof (rule get_enabled_services_union [OF sv])
    show "(''y'', ?y) \<in> set ?svcs" by simp
    show "enabled ?y = Some True" by (simp add: mk_service_def)
    show "''gpu'' \<noteq> ''all''" by simp
    have "cfg_profiles ?c = Some ?pfs \<and> map_of ?pfs ''gpu''
        = Some \<lparr>profile_description = None, included_services = Some [''y'']\<rparr>
        \<and> included_services \<lparr>profile_description = None, included_services = Some [''y'']\<rparr>
          = Some [''y''] \<and> ''y'' \<in> set [''y'']"
      by (simp add: mk_config_def)
    then have "\<exists>pfs pd incl. cfg_profiles ?c = Some pfs \<and> map_of pfs ''gpu'' = Some pd
             \<and> included_services pd = Some incl \<and> ''y'' \<in> set incl" by blast
    then show "(\<exists>own. profiles ?y = Some own \<and> ''gpu'' \<in> set own)
       \<or> (\<exists>pfs pd incl. cfg_profiles ?c = Some pfs \<and> map_of pfs ''gpu'' = Some pd
             \<and> included_services pd = Some incl \<and> ''y'' \<in> set incl)" by (rule disjI2)
  qed
  from v x y show ?thesis by simp
qed

text \<open>
  C6. Resolving the sentinel \<open>all\<close> returns the names of the services whose \<open>enabled\<close> flag
  is true, in the order of the service map, whatever the profile lists say; a service whose
  flag is false or absent is not in the result.
\<close>

theorem get_enabled_services_all:
  assumes "cfg_services c = Some svcs"
  shows "get_enabled_services (Some ''all'') c
           = Inr (map fst (filter (\<lambda>(n, s). enabled s = Some True) svcs))"
proof -
  have "enabled_loop c (Some ''all'') svcs [] = [] @ map fst (filter (\<lambda>(n, s). is_enabled s) svcs)"
    by (intro enabled_loop_all) simp
  with assms show ?thesis by (simp add: get_enabled_services_def is_enabled_iff)
qed

text \<open>
  Three enabled services and two that are not (one flagged false, one without a flag),
  with profile lists that play no part: the result is the three enabled names in order.
\<close>

theorem get_enabled_services_all_witness:
  "get_enabled_services (Some ''all'')
     (mk_config
        [(''n8n'', (mk_service (Some True) [])\<lparr>profiles := Some [''cpu'']\<rparr>),
         (''ollama'', (mk_service (Some False) [])\<lparr>profiles := Some [''cpu'']\<rparr>),
         (''flowise'', mk_service (Some True) []),
         (''qdrant'', mk_service None []),
         (''caddy'', (mk_service (Some True) [])\<lparr>profiles := Some []\<rparr>)]
        [(''cpu'', \<lparr>profile_description = None, included_services = Some [''ollama'']\<rparr>)])
   = Inr [''n8n'', ''flowise'', ''caddy'']"
proof -
  let ?svcs = "[(''n8n'', (mk_service (Some True) [])\<lparr>profiles := Some [''cpu'']\<rparr>),
         (''ollama'', (mk_service (Some False) [])\<lparr>profiles := Some [''cpu'']\<rparr>),
         (''flowise'', mk_service (Some True) []),
         (''qdrant'', mk_service None []),
         (''caddy'', (mk_service (Some True) [])\<lparr>profiles := Some []\<rparr>)]"
  let ?c = "mk_config ?svcs
        [(''cpu'', \<lparr>profile_description = None, included_services = Some [''ollama'']\<rparr>)]"
  have "cfg_services ?c = Some ?svcs" by (simp add: mk_config_def)
  from get_enabled_services_all [OF this] show ?thesis by (simp add: mk_service_def)
qed

section \<open>The public port overlay\<close>

lemma port_mappings_loop_public:
  "environment \<noteq> ''private'' \<Longrightarrow>
     port_mappings_loop n environment ps acc
       = acc @ (if n = ''caddy''
                then map (\<lambda>p. str_int (host_port p) @ '':'' @ str_int (container_port p) @ ''/''
                              @ get_or ''tcp'' (protocol p))
                       (filter (\<lambda>p. host_ip p = ''0.0.0.0'') ps)
                else [])"
proof (cases "n = ''caddy''")
  case True
  assume "environment \<noteq> ''private''"
  then have "port_mappings_loop ''caddy'' environment ps acc
       = acc @ map (\<lambda>p. str_int (host_port p) @ '':'' @ str_int (container_port p) @ ''/''
                              @ get_or ''tcp'' (protocol p))
                       (filter (\<lambda>p. host_ip p = ''0.0.0.0'') ps)"
    by (induction ps arbitrary: acc) (simp_all add: Let_def)
  with True show ?thesis by simp
next
  case False
  assume "environment \<noteq> ''private''"
  with False have "port_mappings_loop n environment ps acc = acc"
    by (induction ps arbitrary: acc) (simp_all add: Let_def)
  with False show ?thesis by simp
qed

lemma dict_set_twice: "dict_set k v (dict_set k v xs) = dict_set k v xs"
  by (induction xs) auto

lemma override_loop_public:
  "environment \<noteq> ''private'' \<Longrightarrow>
     override_loop svcs environment services acc
       = (if ''caddy'' \<in> set services \<and> caddy_public_bindings svcs \<noteq> []
          then dict_set ''caddy'' (caddy_public_bindings svcs) acc else acc)"
proof (induction services arbitrary: acc)
  case Nil
  show ?case by simp
next
  case (Cons n services)
  show ?case
  proof (cases "n = ''caddy''")
    case True
    have "caddy_public_bindings svcs \<noteq> [] \<Longrightarrow> ports_of (get_service svcs ''caddy'') \<noteq> []"
      by (auto simp: caddy_public_bindings_def)
    then show ?thesis
      using Cons True
      by (auto simp: Let_def port_mappings_loop_public dict_set_twice caddy_public_bindings_def)
  next
    case False
    then show ?thesis using Cons by (simp add: Let_def port_mappings_loop_public)
  qed
qed

text \<open>
  C2 (as amended). In the \<open>public\<close> environment the overlay holds at most one entry, for the
  service named \<open>caddy\<close> when it is among the resolved services: its port mappings whose
  host address is \<open>0.0.0.0\<close>, each written \<open>hostPort:containerPort/protocol\<close> with no host
  address, in declaration order; the entry is left out when there is no such mapping. No
  other service gets an entry, whatever its flags and addresses.
\<close>

theorem generate_override_file_public:
  assumes "cfg_services c = Some svcs"
  shows "generate_override_file services ''public'' c
       = Inr (''docker-compose.override.public.generated.yml'',
              if ''caddy'' \<in> set services
                 \<and> filter (\<lambda>p. host_ip p = ''0.0.0.0'') (ports_of (get_service svcs ''caddy'')) \<noteq> []
              then [(''caddy'',
                     map (\<lambda>p. str_int (host_port p) @ '':'' @ str_int (container_port p) @ ''/''
                              @ get_or ''tcp'' (protocol p))
                       (filter (\<lambda>p. host_ip p = ''0.0.0.0'') (ports_of (get_service svcs ''caddy''))))]
              else [])"
proof -
  have ne: "''public'' \<noteq> ''private''" by simp
  show ?thesis
  proof (cases "services = []")
    case True
    then show ?thesis by (simp add: generate_override_file_def)
  next
    case False
    with assms show ?thesis
      by (simp add: generate_override_file_def override_loop_public [OF ne]
          caddy_public_bindings_def)
  qed
qed

lemmas eval_override = generate_override_file_def mk_config_def mk_service_def mk_port_def
  get_service_def ports_of_def get_or_def Let_def str_int_def str_nat.simps digit_char_def

text \<open>
  Resolved services \<open>caddy\<close> (0.0.0.0:443 to 8443 and 127.0.0.1:2019 to 2019), \<open>web\<close>
  (reverse proxied, 0.0.0.0:443 to 8443) and \<open>admin\<close> (127.0.0.1:9000 to 9000): the public
  overlay is the single entry \<open>443:8443/tcp\<close> for \<open>caddy\<close>.
\<close>

theorem generate_override_file_public_witness:
  "generate_override_file [''caddy'', ''web'', ''admin''] ''public''
     (mk_config
        [(''caddy'', mk_service (Some True) [mk_port ''0.0.0.0'' 443 8443, mk_port ''127.0.0.1'' 2019 2019]),
         (''web'', (mk_service (Some True) [mk_port ''0.0.0.0'' 443 8443])\<lparr>reverse_proxy := Some True\<rparr>),
         (''admin'', mk_service (Some True) [mk_port ''127.0.0.1'' 9000 9000])] [])
   = Inr (''docker-compose.override.public.generated.yml'', [(''caddy'', [''443:8443/tcp''])])"
proof -
  let ?svcs = "[(''caddy'', mk_service (Some True) [mk_port ''0.0.0.0'' 443 8443, mk_port ''127.0.0.1'' 2019 2019]),
         (''web'', (mk_service (Some True) [mk_port ''0.0.0.0'' 443 8443])\<lparr>reverse_proxy := Some True\<rparr>),
         (''admin'', mk_service (Some True) [mk_port ''127.0.0.1'' 9000 9000])]"
  have "cfg_services (mk_config ?svcs []) = Some ?svcs" by (simp add: mk_config_def)
  from generate_override_file_public [OF this, of "[''caddy'', ''web'', ''admin'']"]
  show ?thesis by (simp add: eval_override)
qed

text \<open>
  The claim's own example fails: \<open>web\<close> (enabled, reverse proxied, 0.0.0.0:443 to 8443)
  gets no entry in the public overlay, because it is not named \<open>caddy\<close>.
\<close>

theorem generate_override_file_web_counterexample:
  "generate_override_file [''web'', ''admin''] ''public''
     (mk_config
        [(''web'', (mk_service (Some True) [mk_port ''0.0.0.0'' 443 8443])\<lparr>reverse_proxy := Some True\<rparr>),
         (''admin'', mk_service (Some True) [mk_port ''127.0.0.1'' 9000 9000])] [])
   = Inr (''docker-compose.override.public.generated.yml'', [])"
  by (simp add: eval_override)

section \<open>The routing document\<close>

lemma replace_scan_char:
  "replace_scan [a] [b] s = map (\<lambda>c. if c = a then b else c) s"
  by (induction s) auto

lemma str_replace_dash:
  "str_replace ''-'' ''_'' s = map (\<lambda>c. if c = CHR ''-'' then CHR ''_'' else c) s"
  by (simp add: str_replace_def replace_scan_char)

lemma caddy_loop_blocks:
  "caddy_loop svcs services acc = acc @ concat (map (routing_block svcs) services)"
proof (induction services arbitrary: acc)
  case Nil
  show ?case by simp
next
  case (Cons n services)
  show ?case
  proof (cases "reverse_proxy (get_service svcs n) = Some True \<and> ports_of (get_service svcs n) \<noteq> []")
    case True
    then obtain p ps where "ports_of (get_service svcs n) = p # ps"
      by (cases "ports_of (get_service svcs n)") auto
    with True show ?thesis by (simp add: Cons routing_block_def Let_def get_or_def)
  next
    case False
    then show ?thesis
      by (cases "reverse_proxy (get_service svcs n)")
        (auto simp: Cons routing_block_def Let_def get_or_def split: list.splits)
  qed
qed

lemma caddy_lines_blocks:
  "caddy_lines svcs services =
     [''{'' @ newline @ ''    email {$LETSENCRYPT_EMAIL}'' @ newline @ ''}'', []]
       @ concat (map (routing_block svcs) services)
       @ [''import /etc/caddy/addons/*.conf'', []]"
  by (simp add: caddy_lines_def caddy_loop_blocks)

lemma join_snoc: "join sep (xs @ [l]) = concat (map (\<lambda>x. x @ sep) xs) @ l"
proof (induction xs)
  case Nil
  show ?case by simp
next
  case (Cons x xs)
  obtain y ys where "xs @ [l] = y # ys" by (cases "xs @ [l]") auto
  with Cons show ?case by simp
qed

lemma generate_caddyfile_text:
  assumes "cfg_services c = Some svcs"
  shows "generate_caddyfile services c
       = Inr (''{'' @ [CHR 0x0A] @ ''    email {$LETSENCRYPT_EMAIL}'' @ [CHR 0x0A] @ ''}''
              @ [CHR 0x0A] @ [CHR 0x0A]
              @ concat (map (\<lambda>l. l @ [CHR 0x0A]) (concat (map (routing_block svcs) services)))
              @ ''import /etc/caddy/addons/*.conf'' @ [CHR 0x0A])"
proof -
  have l: "caddy_lines sv services =
      ([''{'' @ newline @ ''    email {$LETSENCRYPT_EMAIL}'' @ newline @ ''}'', []]
       @ concat (map (routing_block sv) services)
       @ [''import /etc/caddy/addons/*.conf'']) @ [Nil]" for sv
    by (simp add: caddy_lines_blocks)
  have t: "join newline (caddy_lines svcs services)
      = ''{'' @ [CHR 0x0A] @ ''    email {$LETSENCRYPT_EMAIL}'' @ [CHR 0x0A] @ ''}''
              @ [CHR 0x0A] @ [CHR 0x0A]
              @ concat (map (\<lambda>l. l @ [CHR 0x0A]) (concat (map (routing_block svcs) services)))
              @ ''import /etc/caddy/addons/*.conf'' @ [CHR 0x0A]"
    unfolding l join_snoc by (simp add: newline_def)
  show ?thesis
  proof (cases "services = []")
    case True
    have "join newline (caddy_lines [] []) = join newline (caddy_lines svcs [])"
      by (simp add: caddy_lines_def)
    with True t show ?thesis by (simp add: generate_caddyfile_def)
  next
    case False
    with assms t show ?thesis by (simp add: generate_caddyfile_def)
  qed
qed

text \<open>
  C7. The routing document starts with the global options and ends with the import line.
  In between it holds, for every resolved name with ASCII spelling whose service is
  flagged \<open>reverse_proxy\<close> and declares at least one port mapping, these lines, each
  closed by a line feed: the service's description as a comment (the service name when
  there is no description), the hostname placeholder in braces opening the block, the
  proxy target made of the service name and the container port of the first declared
  mapping, the closing brace, and an empty line. The placeholder is the entry of the
  static table for the names it lists, and otherwise a dollar sign, the name in upper case
  with dashes turned into underscores, and \<open>_HOSTNAME\<close>.
\<close>

theorem generate_caddyfile_routing_blocks:
  assumes "cfg_services c = Some svcs" and "n \<in> set services" and "map_of svcs n = Some s"
    and "reverse_proxy s = Some True" and "ports s = Some (p # ps)" and "is_ascii n"
  shows "(\<exists>pre post. generate_caddyfile services c = Inr (
            ''{'' @ [CHR 0x0A] @ ''    email {$LETSENCRYPT_EMAIL}'' @ [CHR 0x0A] @ ''}''
            @ [CHR 0x0A] @ [CHR 0x0A] @ pre
            @ ''# '' @ (case description s of Some d \<Rightarrow> d | None \<Rightarrow> n) @ [CHR 0x0A]
            @ ''{'' @ get_hostname_variable n @ ''} {'' @ [CHR 0x0A]
            @ ''    reverse_proxy '' @ n @ '':'' @ str_int (container_port p) @ [CHR 0x0A]
            @ ''}'' @ [CHR 0x0A]
            @ [CHR 0x0A]
            @ post @ ''import /etc/caddy/addons/*.conf'' @ [CHR 0x0A]))
       \<and> (\<forall>t. map_of hostname_map n = Some t \<longrightarrow> get_hostname_variable n = t)
       \<and> (map_of hostname_map n = None \<longrightarrow>
            get_hostname_variable n
              = ''$'' @ map (\<lambda>c. if c = CHR ''-'' then CHR ''_'' else c) (map upper_char n)
                  @ ''_HOSTNAME'')"
proof (intro conjI allI impI)
  from assms(2) obtain xs ys where sv: "services = xs @ n # ys" by (auto simp: in_set_conv_decomp)
  have blk: "routing_block svcs n =
      [''# '' @ (case description s of Some d \<Rightarrow> d | None \<Rightarrow> n),
       ''{'' @ get_hostname_variable n @ ''} {'',
       ''    reverse_proxy '' @ n @ '':'' @ str_int (container_port p),
       ''}'', []]"
    using assms(3,4,5)
    by (simp add: routing_block_def get_service_def ports_of_def get_or_def Let_def)
  let ?pre = "concat (map (\<lambda>l. l @ [CHR 0x0A]) (concat (map (routing_block svcs) xs)))"
  let ?post = "concat (map (\<lambda>l. l @ [CHR 0x0A]) (concat (map (routing_block svcs) ys)))"
  have "generate_caddyfile services c = Inr (
            ''{'' @ [CHR 0x0A] @ ''    email {$LETSENCRYPT_EMAIL}'' @ [CHR 0x0A] @ ''}''
            @ [CHR 0x0A] @ [CHR 0x0A] @ ?pre
            @ ''# '' @ (case description s of Some d \<Rightarrow> d | None \<Rightarrow> n) @ [CHR 0x0A]
            @ ''{'' @ get_hostname_variable n @ ''} {'' @ [CHR 0x0A]
            @ ''    reverse_proxy '' @ n @ '':'' @ str_int (container_port p) @ [CHR 0x0A]
            @ ''}'' @ [CHR 0x0A]
            @ [CHR 0x0A]
            @ ?post @ ''import /etc/caddy/addons/*.conf'' @ [CHR 0x0A])"
    unfolding generate_caddyfile_text [OF assms(1)] sv by (simp add: blk)
  then show "\<exists>pre post. generate_caddyfile services c = Inr (
            ''{'' @ [CHR 0x0A] @ ''    email {$LETSENCRYPT_EMAIL}'' @ [CHR 0x0A] @ ''}''
            @ [CHR 0x0A] @ [CHR 0x0A] @ pre
            @ ''# '' @ (case description s of Some d \<Rightarrow> d | None \<Rightarrow> n) @ [CHR 0x0A]
            @ ''{'' @ get_hostname_variable n @ ''} {'' @ [CHR 0x0A]
            @ ''    reverse_proxy '' @ n @ '':'' @ str_int (container_port p) @ [CHR 0x0A]
            @ ''}'' @ [CHR 0x0A]
            @ [CHR 0x0A]
            @ post @ ''import /etc/caddy/addons/*.conf'' @ [CHR 0x0A])"
    by blast
next
  fix t assume "map_of hostname_map n = Some t"
  then show "get_hostname_variable n = t" by (simp add: get_hostname_variable_def get_or_def)
next
  assume "map_of hostname_map n = None"
  then show "get_hostname_variable n
      = ''$'' @ map (\<lambda>c. if c = CHR ''-'' then CHR ''_'' else c) (map upper_char n) @ ''_HOSTNAME''"
    by (simp add: get_hostname_variable_def get_or_def str_replace_dash upper_def)
qed

lemmas eval_caddy = get_service_def mk_service_def mk_port_def mk_config_def
  ports_of_def get_or_def Let_def get_hostname_variable_def hostname_map_def str_replace_def
  upper_def upper_char_def str_int_def str_nat.simps digit_char_def

text \<open>
  Resolved names \<open>n8n\<close> (in the table, described, 127.0.0.1:5678 to 5678), \<open>my-app\<close> (not
  in the table, no description, ports 3000 to 8080 and 3001 to 8081) and \<open>db\<close> (not
  reverse proxied): the whole text, with two blocks in order.
\<close>

theorem generate_caddyfile_routing_blocks_witness:
  "generate_caddyfile [''n8n'', ''my-app'', ''db'']
     (mk_config
        [(''n8n'', (mk_service (Some True) [mk_port ''127.0.0.1'' 5678 5678])
                  \<lparr>description := Some ''Workflow automation'', reverse_proxy := Some True\<rparr>),
         (''my-app'', (mk_service (Some True) [mk_port ''127.0.0.1'' 3000 8080, mk_port ''127.0.0.1'' 3001 8081])
                  \<lparr>reverse_proxy := Some True\<rparr>),
         (''db'', mk_service (Some True) [mk_port ''127.0.0.1'' 5432 5432])] [])
   = Inr (''{'' @ [CHR 0x0A]
          @ ''    email {$LETSENCRYPT_EMAIL}'' @ [CHR 0x0A]
          @ ''}'' @ [CHR 0x0A]
          @ [CHR 0x0A]
          @ ''# Workflow automation'' @ [CHR 0x0A]
          @ ''{$N8N_HOSTNAME} {'' @ [CHR 0x0A]
          @ ''    reverse_proxy n8n:5678'' @ [CHR 0x0A]
          @ ''}'' @ [CHR 0x0A]
          @ [CHR 0x0A]
          @ ''# my-app'' @ [CHR 0x0A]
          @ ''{$MY_APP_HOSTNAME} {'' @ [CHR 0x0A]
          @ ''    reverse_proxy my-app:8080'' @ [CHR 0x0A]
          @ ''}'' @ [CHR 0x0A]
          @ [CHR 0x0A]
          @ ''import /etc/caddy/addons/*.conf'' @ [CHR 0x0A])
   \<and> is_ascii ''my-app''
   \<and> get_hostname_variable ''my-app'' = ''$MY_APP_HOSTNAME''
   \<and> get_hostname_variable ''n8n'' = ''$N8N_HOSTNAME''"
proof -
  let ?app = "(mk_service (Some True) [mk_port ''127.0.0.1'' 3000 8080, mk_port ''127.0.0.1'' 3001 8081])
                  \<lparr>reverse_proxy := Some True\<rparr>"
  let ?n8n = "(mk_service (Some True) [mk_port ''127.0.0.1'' 5678 5678])
                  \<lparr>description := Some ''Workflow automation'', reverse_proxy := Some True\<rparr>"
  let ?svcs = "[(''n8n'', ?n8n), (''my-app'', ?app),
      (''db'', mk_service (Some True) [mk_port ''127.0.0.1'' 5432 5432])]"
  let ?c = "mk_config ?svcs []"
  have a: "is_ascii ''my-app''" by (simp add: is_ascii_def)
  have h: "cfg_services ?c = Some ?svcs" "''my-app'' \<in> set [''n8n'', ''my-app'', ''db'']"
    "map_of ?svcs ''my-app'' = Some ?app" "reverse_proxy ?app = Some True"
    "ports ?app = Some (mk_port ''127.0.0.1'' 3000 8080 # [mk_port ''127.0.0.1'' 3001 8081])"
    by (simp_all add: mk_config_def mk_service_def)
  have hn: "''n8n'' \<in> set [''n8n'', ''my-app'', ''db'']"
    "map_of ?svcs ''n8n'' = Some ?n8n" "reverse_proxy ?n8n = Some True"
    "ports ?n8n = Some (mk_port ''127.0.0.1'' 5678 5678 # [])" "is_ascii ''n8n''"
    by (simp_all add: mk_service_def is_ascii_def)
  note t = generate_caddyfile_routing_blocks [OF h a]
  note tn = generate_caddyfile_routing_blocks [OF h(1) hn]
  have "map_of hostname_map ''my-app'' = None" by (simp add: hostname_map_def)
  with t have v: "get_hostname_variable ''my-app'' = ''$MY_APP_HOSTNAME''"
    by (simp add: upper_char_def get_or_def)
  have "map_of hostname_map ''n8n'' = Some ''$N8N_HOSTNAME''" by (simp add: hostname_map_def)
  with tn have vn: "get_hostname_variable ''n8n'' = ''$N8N_HOSTNAME''" by blast
  have full: "generate_caddyfile [''n8n'', ''my-app'', ''db''] ?c
   = Inr (''{'' @ [CHR 0x0A]
          @ ''    email {$LETSENCRYPT_EMAIL}'' @ [CHR 0x0A]
          @ ''}'' @ [CHR 0x0A]
          @ [CHR 0x0A]
          @ ''# Workflow automation'' @ [CHR 0x0A]
          @ ''{$N8N_HOSTNAME} {'' @ [CHR 0x0A]
          @ ''    reverse_proxy n8n:5678'' @ [CHR 0x0A]
          @ ''}'' @ [CHR 0x0A]
          @ [CHR 0x0A]
          @ ''# my-app'' @ [CHR 0x0A]
          @ ''{$MY_APP_HOSTNAME} {'' @ [CHR 0x0A]
          @ ''    reverse_proxy my-app:8080'' @ [CHR 0x0A]
          @ ''}'' @ [CHR 0x0A]
          @ [CHR 0x0A]
          @ ''import /etc/caddy/addons/*.conf'' @ [CHR 0x0A])"
    by (simp add: generate_caddyfile_def caddy_lines_def newline_def eval_caddy)
  from full a v vn show ?thesis by (simp only: simp_thms)
qed

section \<open>Toggling a service\<close>

lemma dict_modify_map_of:
  "map_of (dict_modify k f xs) k' = (if k' = k then map_option f (map_of xs k) else map_of xs k')"
  by (induction xs) auto

lemma dict_modify_distinct:
  "distinct (map fst xs) \<Longrightarrow>
     dict_modify k f xs = map (\<lambda>(k', v). if k' = k then (k', f v) else (k', v)) xs"
proof (induction xs)
  case Nil
  show ?case by simp
next
  case (Cons x xs)
  obtain k' v where x: "x = (k', v)" by (cases x)
  have "k \<notin> fst ` set xs \<Longrightarrow> map (\<lambda>(k', v). if k' = k then (k', f v) else (k', v)) xs = xs"
    by (induction xs) auto
  with Cons show ?case by (auto simp: x)
qed

lemma dict_modify_twice: "dict_modify k f (dict_modify k g xs) = dict_modify k (f \<circ> g) xs"
  by (induction xs) auto

lemma dict_modify_fixed: "map_of xs k = Some v \<Longrightarrow> f v = v \<Longrightarrow> dict_modify k f xs = xs"
  by (induction xs) (auto split: if_splits)

lemma get_or_Some: "get_or d (Some v) = v"
  by (simp add: get_or_def)

lemma toggle_service_found:
  assumes "cfg_services c = Some svcs" and "map_of svcs n = Some s"
  shows "toggle_service n c
       = Inr (if \<not> get_or False (enabled s) then NowEnabled n else NowDisabled n,
              c\<lparr>cfg_services := Some (dict_modify n
                   (\<lambda>s'. s'\<lparr>enabled := Some (\<not> get_or False (enabled s))\<rparr>) svcs)\<rparr>)"
  using assms by (simp add: toggle_service_def Let_def)

lemma toggle_twice_found:
  assumes "cfg_services c = Some svcs" and "map_of svcs n = Some s"
  shows "toggle_twice n c
       = Inr (if get_or False (enabled s) then NowEnabled n else NowDisabled n,
              c\<lparr>cfg_services := Some (dict_modify n
                   (\<lambda>s'. s'\<lparr>enabled := Some (get_or False (enabled s))\<rparr>) svcs)\<rparr>)"
proof -
  let ?b = "get_or False (enabled s)"
  let ?svcs1 = "dict_modify n (\<lambda>s'. s'\<lparr>enabled := Some (\<not> ?b)\<rparr>) svcs"
  let ?c1 = "c\<lparr>cfg_services := Some ?svcs1\<rparr>"
  have s1: "cfg_services ?c1 = Some ?svcs1" by simp
  have m1: "map_of ?svcs1 n = Some (s\<lparr>enabled := Some (\<not> ?b)\<rparr>)"
    using assms(2) by (simp add: dict_modify_map_of)
  have "toggle_twice n c = toggle_service n ?c1"
    by (simp add: toggle_twice_def toggle_service_found [OF assms])
  also have "\<dots> = Inr (if ?b then NowEnabled n else NowDisabled n,
      ?c1\<lparr>cfg_services := Some (dict_modify n (\<lambda>s'. s'\<lparr>enabled := Some ?b\<rparr>) ?svcs1)\<rparr>)"
    using toggle_service_found [OF s1 m1] by (simp add: get_or_Some)
  also have "dict_modify n (\<lambda>s'. s'\<lparr>enabled := Some ?b\<rparr>) ?svcs1
      = dict_modify n (\<lambda>s'. s'\<lparr>enabled := Some ?b\<rparr>) svcs"
    by (simp add: dict_modify_twice comp_def)
  finally show ?thesis by simp
qed

text \<open>
  C10 (as amended). Toggling a service that is in the service map keeps the order of the
  map and every other entry, and changes in the entry of that service only the \<open>enabled\<close>
  flag, to the negation of its value (an absent flag counts as false). Toggling it twice
  gives back the registry when the flag was present; when the flag was absent the result
  is the registry with that flag set to false. Toggling a name that is not in the service
  map changes nothing.
\<close>

theorem toggle_service_flips_flag:
  assumes "cfg_services c = Some svcs" and "distinct (map fst svcs)"
  shows "(\<forall>s. map_of svcs n = Some s \<longrightarrow>
            (\<exists>m. toggle_service n c = Inr (m, c\<lparr>cfg_services := Some (map (\<lambda>(k, v).
                      if k = n then (k, v\<lparr>enabled := Some (\<not> get_or False (enabled v))\<rparr>) else (k, v)) svcs)\<rparr>))
          \<and> (enabled s \<noteq> None \<longrightarrow> (\<exists>m. toggle_twice n c = Inr (m, c)))
          \<and> (enabled s = None \<longrightarrow> (\<exists>m. toggle_twice n c = Inr (m, c\<lparr>cfg_services := Some (map (\<lambda>(k, v).
                      if k = n then (k, v\<lparr>enabled := Some False\<rparr>) else (k, v)) svcs)\<rparr>))))
       \<and> (map_of svcs n = None \<longrightarrow> toggle_service n c = Inr (ServiceNotFound n, c)
            \<and> toggle_twice n c = Inr (ServiceNotFound n, c))"
proof (intro conjI allI impI)
  fix s assume s: "map_of svcs n = Some s"
  have same: "(\<lambda>(k, v). if k = n then (k, v\<lparr>enabled := Some (\<not> get_or False (enabled v))\<rparr>) else (k, v)) x
      = (\<lambda>(k, v). if k = n then (k, v\<lparr>enabled := Some (\<not> get_or False (enabled s))\<rparr>) else (k, v)) x"
    if "x \<in> set svcs" for x
  proof -
    obtain k v where x: "x = (k, v)" by (cases x)
    from that assms(2) have "map_of svcs k = Some v" by (simp add: x)
    with s show ?thesis by (auto simp: x)
  qed
  have "dict_modify n (\<lambda>s'. s'\<lparr>enabled := Some (\<not> get_or False (enabled s))\<rparr>) svcs
      = map (\<lambda>(k, v). if k = n then (k, v\<lparr>enabled := Some (\<not> get_or False (enabled v))\<rparr>) else (k, v)) svcs"
    using same by (simp add: dict_modify_distinct [OF assms(2)] cong: map_cong)
  then show "\<exists>m. toggle_service n c = Inr (m, c\<lparr>cfg_services := Some (map (\<lambda>(k, v).
        if k = n then (k, v\<lparr>enabled := Some (\<not> get_or False (enabled v))\<rparr>) else (k, v)) svcs)\<rparr>)"
    by (simp add: toggle_service_found [OF assms(1) s])
  show "\<exists>m. toggle_twice n c = Inr (m, c)" if "enabled s \<noteq> None"
  proof -
    from that obtain b where b: "enabled s = Some b" by auto
    then have "s\<lparr>enabled := Some (get_or False (enabled s))\<rparr> = s" by (simp add: get_or_def)
    from dict_modify_fixed [OF s, of "\<lambda>s'. s'\<lparr>enabled := Some (get_or False (enabled s))\<rparr>", OF this]
    have "c\<lparr>cfg_services := Some (dict_modify n
        (\<lambda>s'. s'\<lparr>enabled := Some (get_or False (enabled s))\<rparr>) svcs)\<rparr> = c"
      using assms(1) by simp
    then show ?thesis by (simp add: toggle_twice_found [OF assms(1) s])
  qed
  show "\<exists>m. toggle_twice n c = Inr (m, c\<lparr>cfg_services := Some (map (\<lambda>(k, v).
        if k = n then (k, v\<lparr>enabled := Some False\<rparr>) else (k, v)) svcs)\<rparr>)" if "enabled s = None"
    using that
    by (simp add: toggle_twice_found [OF assms(1) s] get_or_def dict_modify_distinct [OF assms(2)])
next
  assume "map_of svcs n = None"
  then show "toggle_service n c = Inr (ServiceNotFound n, c)"
    using assms(1) by (simp add: toggle_service_def)
  then show "toggle_twice n c = Inr (ServiceNotFound n, c)"
    by (simp add: toggle_twice_def)
qed

lemmas eval_toggle = toggle_service_def toggle_twice_def mk_config_def mk_service_def
  get_or_def Let_def

text \<open>
  A registry with \<open>a\<close> (enabled) and \<open>b\<close> (no flag): toggling \<open>a\<close> disables it and leaves \<open>b\<close>
  alone, toggling \<open>a\<close> twice gives the registry back, and toggling the unknown \<open>x\<close> changes
  nothing.
\<close>

theorem toggle_service_flips_flag_witness:
  "toggle_service ''a'' (mk_config [(''a'', mk_service (Some True) []), (''b'', mk_service None [])] [])
     = Inr (NowDisabled ''a'',
            mk_config [(''a'', mk_service (Some False) []), (''b'', mk_service None [])] [])
   \<and> (\<exists>m. toggle_twice ''a'' (mk_config [(''a'', mk_service (Some True) []), (''b'', mk_service None [])] [])
          = Inr (m, mk_config [(''a'', mk_service (Some True) []), (''b'', mk_service None [])] []))
   \<and> toggle_service ''x'' (mk_config [(''a'', mk_service (Some True) []), (''b'', mk_service None [])] [])
     = Inr (ServiceNotFound ''x'',
            mk_config [(''a'', mk_service (Some True) []), (''b'', mk_service None [])] [])"
proof -
  let ?svcs = "[(''a'', mk_service (Some True) []), (''b'', mk_service None [])]"
  let ?c = "mk_config ?svcs []"
  have h: "cfg_services ?c = Some ?svcs" "distinct (map fst ?svcs)"
    by (simp_all add: mk_config_def)
  have a: "map_of ?svcs ''a'' = Some (mk_service (Some True) [])"
    "enabled (mk_service (Some True) []) \<noteq> None"
    by (simp_all add: mk_service_def)
  have x: "map_of ?svcs ''x'' = None" by simp
  from toggle_service_flips_flag [OF h, of "''a''"] a
  have twice: "\<exists>m. toggle_twice ''a'' ?c = Inr (m, ?c)" by blast
  from toggle_service_flips_flag [OF h, of "''x''"] x
  have nf: "toggle_service ''x'' ?c = Inr (ServiceNotFound ''x'', ?c)" by blast
  have one: "toggle_service ''a'' ?c = Inr (NowDisabled ''a'',
      mk_config [(''a'', mk_service (Some False) []), (''b'', mk_service None [])] [])"
    by (simp add: eval_toggle)
  from one twice nf show ?thesis by blast
qed

text \<open>
  The claim as stated fails where it speaks of a missing flag: service \<open>a\<close> has no \<open>enabled\<close>
  key, and after two toggles its entry carries the key with value false, so the registry
  is not the one before the first toggle.
\<close>

theorem toggle_twice_missing_flag_counterexample:
  "toggle_twice ''a'' (mk_config [(''a'', mk_service None [])] [])
     = Inr (NowDisabled ''a'', mk_config [(''a'', mk_service (Some False) [])] [])
   \<and> mk_config [(''a'', mk_service (Some False) [])] [] \<noteq> mk_config [(''a'', mk_service None [])] []"
  by (simp add: eval_toggle)

section \<open>The conflict check of the port editor\<close>

lemma port_in_use_iff:
  "port_in_use ip port ps \<longleftrightarrow> (\<exists>p \<in> set ps. host_ip p = ip \<and> host_port p = port)"
  by (induction ps) auto

lemma conflict_loop_iff:
  "conflict_loop cur ip port svcs \<longleftrightarrow>
     (\<exists>(n, s) \<in> set svcs. n \<noteq> cur \<and> is_enabled s
        \<and> (\<exists>p \<in> set (ports_of s). host_ip p = ip \<and> host_port p = port))"
  by (induction cur ip port svcs rule: conflict_loop.induct) (auto simp: port_in_use_iff)

lemma conflict_loop_dict_modify:
  "conflict_loop cur ip port (dict_modify cur f svcs) = conflict_loop cur ip port svcs"
proof (induction svcs)
  case Nil
  show ?case by simp
next
  case (Cons x svcs)
  obtain k v where x: "x = (k, v)" by (cases x)
  show ?case
  proof (cases "k = cur")
    case True
    then show ?thesis by (simp add: x)
  next
    case False
    then show ?thesis using Cons by (simp add: x)
  qed
qed

lemma check_port_conflict_set_port:
  assumes "cfg_services c = Some svcs"
  shows "check_port_conflict cur ip port (set_port cur j f c) = Inr (conflict_loop cur ip port svcs)"
  using assms
  by (simp add: check_port_conflict_def set_port_def get_or_Some conflict_loop_dict_modify)

lemma edit_single_port_unfold:
  assumes "cfg_services c = Some svcs" and "map_of svcs n = Some s" and "ports s = Some ps"
    and "list_index ps idx = Some j"
  shows "edit_single_port n idx new_ip str c =
     (let changed = (new_ip \<noteq> [] \<and> new_ip \<noteq> host_ip (ps ! j));
          c1 = (if changed then set_port n j (\<lambda>p. p\<lparr>host_ip := new_ip\<rparr>) c else c);
          m1 = (if changed then [HostIpUpdated new_ip] else []);
          ip1 = (if changed then new_ip else host_ip (ps ! j))
      in if str = [] then Inr (m1 @ [UpdatedSuccessfully], c1)
         else case py_int str of
           None \<Rightarrow> Inr (m1 @ [InvalidPortNumber, UpdatedSuccessfully], c1)
         | Some v \<Rightarrow>
             if 1 \<le> v \<and> v \<le> 65535 then
               (if v \<noteq> host_port (ps ! j) then
                  (if conflict_loop n ip1 v svcs then Inr (m1 @ [PortConflictDetected v], c1)
                   else Inr (m1 @ [HostPortUpdated v, UpdatedSuccessfully],
                             set_port n j (\<lambda>p. p\<lparr>host_port := v\<rparr>) c1))
                else Inr (m1 @ [UpdatedSuccessfully], c1))
             else Inr (m1 @ [InvalidPortRange, UpdatedSuccessfully], c1))"
proof -
  have cc: "check_port_conflict n ip v c = Inr (conflict_loop n ip v svcs)" for ip v
    using assms(1) by (simp add: check_port_conflict_def)
  show ?thesis
    using assms
    by (simp add: edit_single_port_def Let_def cc check_port_conflict_set_port [OF assms(1)]
        split: option.splits)
qed

text \<open>
  C9. \<open>check_port_conflict\<close> answers true exactly when a service other than the current
  one has its \<open>enabled\<close> flag true and declares a mapping with the given address and port.
  So an edit that leaves the address alone and gives a port in range, different from the
  current one, is accepted whenever no other enabled service declares that address and
  port; mappings of services that are not enabled and other mappings of the edited
  service do not stand in the way.
\<close>

theorem check_port_conflict_other_enabled:
  assumes "cfg_services c = Some svcs"
  shows "check_port_conflict cur ip port c
           = Inr (\<exists>(n, s) \<in> set svcs. n \<noteq> cur \<and> enabled s = Some True
                    \<and> (\<exists>p \<in> set (ports_of s). host_ip p = ip \<and> host_port p = port))
       \<and> (\<forall>s ps j. map_of svcs cur = Some s \<and> ports s = Some ps \<and> list_index ps idx = Some j
             \<and> py_int str = Some port \<and> 1 \<le> port \<and> port \<le> 65535 \<and> port \<noteq> host_port (ps ! j)
             \<and> \<not> (\<exists>(n, s') \<in> set svcs. n \<noteq> cur \<and> enabled s' = Some True
                    \<and> (\<exists>p \<in> set (ports_of s'). host_ip p = host_ip (ps ! j) \<and> host_port p = port))
           \<longrightarrow> edit_single_port cur idx [] str c
                 = Inr ([HostPortUpdated port, UpdatedSuccessfully],
                        set_port cur j (\<lambda>p. p\<lparr>host_port := port\<rparr>) c))"
proof (intro conjI allI impI)
  show "check_port_conflict cur ip port c
           = Inr (\<exists>(n, s) \<in> set svcs. n \<noteq> cur \<and> enabled s = Some True
                    \<and> (\<exists>p \<in> set (ports_of s). host_ip p = ip \<and> host_port p = port))"
    using assms by (simp add: check_port_conflict_def conflict_loop_iff is_enabled_iff)
next
  fix s ps j
  assume a: "map_of svcs cur = Some s \<and> ports s = Some ps \<and> list_index ps idx = Some j
             \<and> py_int str = Some port \<and> 1 \<le> port \<and> port \<le> 65535 \<and> port \<noteq> host_port (ps ! j)
             \<and> \<not> (\<exists>(n, s') \<in> set svcs. n \<noteq> cur \<and> enabled s' = Some True
                    \<and> (\<exists>p \<in> set (ports_of s'). host_ip p = host_ip (ps ! j) \<and> host_port p = port))"
  then have nc: "\<not> conflict_loop cur (host_ip (ps ! j)) port svcs"
    by (simp add: conflict_loop_iff is_enabled_iff)
  from a have "str \<noteq> []" by (auto simp: py_int_def)
  with a nc show "edit_single_port cur idx [] str c
                 = Inr ([HostPortUpdated port, UpdatedSuccessfully],
                        set_port cur j (\<lambda>p. p\<lparr>host_port := port\<rparr>) c)"
    using edit_single_port_unfold [OF assms, of cur s ps idx j "[]" str]
    by (simp add: Let_def)
qed

lemmas eval_py_int = py_int_def parse_digits_def int_max_str_digits_def well_grouped.simps
  is_digit_def digits_value_def digit_value_def

lemmas eval_edit = edit_single_port_def check_port_conflict_def set_port_def list_index_def
  mk_config_def mk_service_def mk_port_def is_enabled_def ports_of_def get_or_def Let_def

text \<open>
  Service \<open>a\<close> (enabled, 127.0.0.1:8000 and 127.0.0.1:8001), service \<open>d\<close> (not enabled,
  127.0.0.1:8002) and service \<open>e\<close> (enabled, 127.0.0.1:9000). Seen from \<open>a\<close>, only 9000
  is in conflict; moving the first port of \<open>a\<close> to 8002, the port of \<open>d\<close>, or to 8001, its
  own second port, is accepted.
\<close>

theorem check_port_conflict_other_enabled_witness:
  "check_port_conflict ''a'' ''127.0.0.1'' 9000
     (mk_config [(''a'', mk_service (Some True) [mk_port ''127.0.0.1'' 8000 80, mk_port ''127.0.0.1'' 8001 81]),
                 (''d'', mk_service (Some False) [mk_port ''127.0.0.1'' 8002 82]),
                 (''e'', mk_service (Some True) [mk_port ''127.0.0.1'' 9000 90])] []) = Inr True
   \<and> check_port_conflict ''a'' ''127.0.0.1'' 8002
     (mk_config [(''a'', mk_service (Some True) [mk_port ''127.0.0.1'' 8000 80, mk_port ''127.0.0.1'' 8001 81]),
                 (''d'', mk_service (Some False) [mk_port ''127.0.0.1'' 8002 82]),
                 (''e'', mk_service (Some True) [mk_port ''127.0.0.1'' 9000 90])] []) = Inr False
   \<and> edit_single_port ''a'' 0 [] ''8002''
     (mk_config [(''a'', mk_service (Some True) [mk_port ''127.0.0.1'' 8000 80, mk_port ''127.0.0.1'' 8001 81]),
                 (''d'', mk_service (Some False) [mk_port ''127.0.0.1'' 8002 82]),
                 (''e'', mk_service (Some True) [mk_port ''127.0.0.1'' 9000 90])] [])
     = Inr ([HostPortUpdated 8002, UpdatedSuccessfully],
        mk_config [(''a'', mk_service (Some True) [mk_port ''127.0.0.1'' 8002 80, mk_port ''127.0.0.1'' 8001 81]),
                 (''d'', mk_service (Some False) [mk_port ''127.0.0.1'' 8002 82]),
                 (''e'', mk_service (Some True) [mk_port ''127.0.0.1'' 9000 90])] [])
   \<and> edit_single_port ''a'' 0 [] ''8001''
     (mk_config [(''a'', mk_service (Some True) [mk_port ''127.0.0.1'' 8000 80, mk_port ''127.0.0.1'' 8001 81]),
                 (''d'', mk_service (Some False) [mk_port ''127.0.0.1'' 8002 82]),
                 (''e'', mk_service (Some True) [mk_port ''127.0.0.1'' 9000 90])] [])
     = Inr ([HostPortUpdated 8001, UpdatedSuccessfully],
        mk_config [(''a'', mk_service (Some True) [mk_port ''127.0.0.1'' 8001 80, mk_port ''127.0.0.1'' 8001 81]),
                 (''d'', mk_service (Some False) [mk_port ''127.0.0.1'' 8002 82]),
                 (''e'', mk_service (Some True) [mk_port ''127.0.0.1'' 9000 90])] [])"
proof -
  let ?ps = "[mk_port ''127.0.0.1'' 8000 80, mk_port ''127.0.0.1'' 8001 81]"
  let ?svcs = "[(''a'', mk_service (Some True) ?ps),
                 (''d'', mk_service (Some False) [mk_port ''127.0.0.1'' 8002 82]),
                 (''e'', mk_service (Some True) [mk_port ''127.0.0.1'' 9000 90])]"
  let ?c = "mk_config ?svcs []"
  have h: "cfg_services ?c = Some ?svcs" by (simp add: mk_config_def)
  have p: "py_int ''8002'' = Some 8002" "py_int ''8001'' = Some 8001"
    by (simp_all add: eval_py_int)
  have c1: "check_port_conflict ''a'' ''127.0.0.1'' 9000 ?c = Inr True"
    using check_port_conflict_other_enabled [OF h, of "''a''" "''127.0.0.1''" 9000 0 "[]"]
    by (simp add: mk_service_def mk_port_def ports_of_def get_or_def)
  have c2: "check_port_conflict ''a'' ''127.0.0.1'' 8002 ?c = Inr False"
    using check_port_conflict_other_enabled [OF h, of "''a''" "''127.0.0.1''" 8002 0 "[]"]
    by (simp add: mk_service_def mk_port_def ports_of_def get_or_def)
  have pre: "map_of ?svcs ''a'' = Some (mk_service (Some True) ?ps)"
    "ports (mk_service (Some True) ?ps) = Some ?ps" "list_index ?ps 0 = Some 0"
    "host_port (?ps ! 0) = 8000" "host_ip (?ps ! 0) = ''127.0.0.1''"
    by (simp_all add: mk_service_def mk_port_def list_index_def)
  have n2: "\<not> (\<exists>(n, s') \<in> set ?svcs. n \<noteq> ''a'' \<and> enabled s' = Some True
      \<and> (\<exists>p \<in> set (ports_of s'). host_ip p = host_ip (?ps ! 0) \<and> host_port p = 8002))"
    by (simp add: mk_service_def mk_port_def ports_of_def get_or_def)
  have n1: "\<not> (\<exists>(n, s') \<in> set ?svcs. n \<noteq> ''a'' \<and> enabled s' = Some True
      \<and> (\<exists>p \<in> set (ports_of s'). host_ip p = host_ip (?ps ! 0) \<and> host_port p = 8001))"
    by (simp add: mk_service_def mk_port_def ports_of_def get_or_def)
  have e2: "edit_single_port ''a'' 0 [] ''8002'' ?c
      = Inr ([HostPortUpdated 8002, UpdatedSuccessfully],
             set_port ''a'' 0 (\<lambda>p. p\<lparr>host_port := 8002\<rparr>) ?c)"
    using check_port_conflict_other_enabled [OF h, of "''a''" "''127.0.0.1''" 8002 0 "''8002''"]
      pre p n2 by simp
  have e1: "edit_single_port ''a'' 0 [] ''8001'' ?c
      = Inr ([HostPortUpdated 8001, UpdatedSuccessfully],
             set_port ''a'' 0 (\<lambda>p. p\<lparr>host_port := 8001\<rparr>) ?c)"
    using check_port_conflict_other_enabled [OF h, of "''a''" "''127.0.0.1''" 8001 0 "''8001''"]
      pre p n1 by simp
  have s2: "set_port ''a'' 0 (\<lambda>p. p\<lparr>host_port := 8002\<rparr>) ?c
      = mk_config [(''a'', mk_service (Some True) [mk_port ''127.0.0.1'' 8002 80, mk_port ''127.0.0.1'' 8001 81]),
                 (''d'', mk_service (Some False) [mk_port ''127.0.0.1'' 8002 82]),
                 (''e'', mk_service (Some True) [mk_port ''127.0.0.1'' 9000 90])] []"
    by (simp add: eval_edit)
  have s1: "set_port ''a'' 0 (\<lambda>p. p\<lparr>host_port := 8001\<rparr>) ?c
      = mk_config [(''a'', mk_service (Some True) [mk_port ''127.0.0.1'' 8001 80, mk_port ''127.0.0.1'' 8001 81]),
                 (''d'', mk_service (Some False) [mk_port ''127.0.0.1'' 8002 82]),
                 (''e'', mk_service (Some True) [mk_port ''127.0.0.1'' 9000 90])] []"
    by (simp add: eval_edit)
  from c1 c2 e2 e1 show ?thesis by (simp only: s1 s2 simp_thms)
qed

section \<open>Rejected port input\<close>







section \<open>Substituting twice\<close>

lemmas eval_subst = substitute_variables_def resolved_default_def get_or_def str_replace_def
  placeholder_def

text \<open>
  The claim as stated fails: the default host address \<open>host\<close> does not contain the
  placeholder, yet a first pass turns the description into the placeholder itself, and a
  second pass replaces it.
\<close>

theorem substitute_variables_twice_counterexample:
  "\<not> sublist placeholder ''host''
   \<and> substitute_variables
       (JDict [(''global'', JDict [(''default_host_ip'', JStr ''host'')]),
               (''services'', JDict [(''a'', JDict [(''description'',
                    JStr ''${default_${default_host_ip}_ip}'')])])])
     = Inr (JDict [(''global'', JDict [(''default_host_ip'', JStr ''host'')]),
               (''services'', JDict [(''a'', JDict [(''description'',
                    JStr ''${default_host_ip}'')])])])
   \<and> substitute_variables
       (JDict [(''global'', JDict [(''default_host_ip'', JStr ''host'')]),
               (''services'', JDict [(''a'', JDict [(''description'',
                    JStr ''${default_host_ip}'')])])])
     = Inr (JDict [(''global'', JDict [(''default_host_ip'', JStr ''host'')]),
               (''services'', JDict [(''a'', JDict [(''description'', JStr ''host'')])])])"
  by (simp add: eval_subst sublist_Cons_right)

lemma overlap_free_tok_not_Nil: "overlap_free v tok \<Longrightarrow> tok \<noteq> []"
  by (auto simp: overlap_free_def)

lemma overlap_free_suffix_prefix:
  "overlap_free v tok \<Longrightarrow> suffix x v \<Longrightarrow> prefix x tok \<Longrightarrow> x = []"
  by (auto simp: overlap_free_def list_ex_iff)

lemma overlap_free_prefix_suffix:
  "overlap_free v tok \<Longrightarrow> prefix x v \<Longrightarrow> suffix x tok \<Longrightarrow> x = []"
  by (auto simp: overlap_free_def list_ex_iff)

lemma replace_scan_prefix:
  assumes "overlap_free v tok"
  shows "suffix p tok \<Longrightarrow> prefix p (replace_scan tok v s) \<Longrightarrow> prefix p s"
proof (induction s arbitrary: p)
  case Nil
  then show ?case by simp
next
  case (Cons c cs)
  show ?case
  proof (cases p)
    case Nil
    then show ?thesis by simp
  next
    case (Cons a p')
    show ?thesis
    proof (cases "prefix tok (c # cs)")
      case True
      with Cons.prems(2) have "prefix p (v @ replace_scan tok v (drop (length tok - 1) cs))"
        by simp
      then consider "prefix p v" | us where "p = v @ us"
        by (auto simp: prefix_append)
      then show ?thesis
      proof cases
        case 1
        from overlap_free_prefix_suffix [OF assms 1 Cons.prems(1)] Cons show ?thesis by simp
      next
        case 2
        then have "prefix v p" by simp
        with Cons.prems(1) have "sublist v tok" by (auto simp: sublist_altdef')
        with assms show ?thesis by (simp add: overlap_free_def)
      qed
    next
      case False
      with Cons.prems(2) Cons have ac: "a = c" and pp: "prefix p' (replace_scan tok v cs)"
        by simp_all
      from Cons.prems(1) Cons have "suffix p' tok" by (auto dest: suffix_ConsD)
      from Cons.IH [OF this pp] ac Cons show ?thesis by simp
    qed
  qed
qed

lemma replace_scan_no_occurrence:
  "overlap_free v tok \<Longrightarrow> \<not> sublist tok (replace_scan tok v s)"
proof (induction tok v s rule: replace_scan.induct)
  case (1 old new)
  from overlap_free_tok_not_Nil [OF "1.prems"] show ?case by simp
next
  case (2 old new c cs)
  note of = "2.prems"
  show ?case
  proof (cases "prefix old (c # cs)")
    case True
    let ?R = "replace_scan old new (drop (length old - 1) cs)"
    from "2.IH"(1) [OF True of] have ih: "\<not> sublist old ?R" .
    have "\<not> sublist old (new @ ?R)"
    proof
      assume "sublist old (new @ ?R)"
      then consider "sublist old new" | "sublist old ?R"
        | x1 x2 where "old = x1 @ x2" "suffix x1 new" "prefix x2 ?R"
        by (auto simp: sublist_append)
      then show False
      proof cases
        case 1
        with of show False by (simp add: overlap_free_def)
      next
        case 2
        with ih show False by simp
      next
        case 3
        from 3(1) have "prefix x1 old" by simp
        from overlap_free_suffix_prefix [OF of 3(2) this] have "x1 = []" .
        with 3(1,3) have "sublist old ?R" by auto
        with ih show False by simp
      qed
    qed
    with True show ?thesis by simp
  next
    case False
    from "2.IH"(2) [OF False of] have ih: "\<not> sublist old (replace_scan old new cs)" .
    have "\<not> prefix old (c # replace_scan old new cs)"
    proof
      assume "prefix old (c # replace_scan old new cs)"
      with False have "prefix old (replace_scan old new (c # cs))" by simp
      from replace_scan_prefix [OF of _ this] have "prefix old (c # cs)" by simp
      with False show False by simp
    qed
    with ih False show ?thesis by (simp add: sublist_Cons_right)
  qed
qed

lemma replace_scan_fixed: "\<not> sublist tok s \<Longrightarrow> replace_scan tok v s = s"
proof (induction s)
  case Nil
  show ?case by simp
next
  case (Cons c cs)
  from Cons.prems have "\<not> prefix tok (c # cs)" and "\<not> sublist tok cs"
    by (auto simp: sublist_Cons_right)
  with Cons.IH show ?case by simp
qed

lemma str_replace_fixed: "tok \<noteq> [] \<Longrightarrow> \<not> sublist tok s \<Longrightarrow> str_replace tok v s = s"
  by (simp add: str_replace_def replace_scan_fixed)

lemma str_replace_idem:
  assumes "overlap_free v tok"
  shows "str_replace tok v (str_replace tok v s) = str_replace tok v s"
  using overlap_free_tok_not_Nil [OF assms] replace_scan_no_occurrence [OF assms, of s]
  by (simp add: str_replace_def replace_scan_fixed)

lemma substitute_idem:
  assumes "overlap_free v placeholder"
  shows "d = JStr v \<Longrightarrow>
           \<exists>y. substitute_recursive d obj = Inr y \<and> substitute_recursive d y = Inr y"
    and "d = JStr v \<Longrightarrow>
           \<exists>ys. substitute_list d xs = Inr ys \<and> substitute_list d ys = Inr ys"
    and "d = JStr v \<Longrightarrow>
           \<exists>zs. substitute_items d items = Inr zs \<and> substitute_items d zs = Inr zs"
proof (induction d obj and d xs and d items
    rule: substitute_recursive_substitute_list_substitute_items.induct)
  case (1 d items)
  then show ?case by auto
next
  case (2 d xs)
  then show ?case by auto
next
  case (3 d s)
  then show ?case by (simp add: str_replace_idem [OF assms])
next
  case (6 d x xs)
  from "6.IH"(1) [OF "6.prems"] obtain y where
    y: "substitute_recursive d x = Inr y" "substitute_recursive d y = Inr y" by blast
  from "6.IH"(2) [OF y(1) "6.prems"] obtain ys where
    ys: "substitute_list d xs = Inr ys" "substitute_list d ys = Inr ys" by blast
  from y ys show ?case by simp
next
  case (8 d key "value" rest)
  from "8.IH"(1) [OF "8.prems"] obtain y where
    y: "substitute_recursive d value = Inr y" "substitute_recursive d y = Inr y" by blast
  from "8.IH"(2) [OF y(1) "8.prems"] obtain zs where
    zs: "substitute_items d rest = Inr zs" "substitute_items d zs = Inr zs" by blast
  from y zs show ?case by simp
qed simp_all

lemma substitute_items_lookup:
  "substitute_items d items = Inr items' \<Longrightarrow>
     (map_of items k = None \<longrightarrow> map_of items' k = None)
   \<and> (\<forall>x. map_of items k = Some x \<longrightarrow>
         (\<exists>x'. substitute_recursive d x = Inr x' \<and> map_of items' k = Some x'))"
proof (induction items arbitrary: items')
  case Nil
  then show ?case by simp
next
  case (Cons kv items)
  obtain key val where kv: "kv = (key, val)" by (cases kv)
  from Cons.prems obtain val' rest' where
    v: "substitute_recursive d val = Inr val'" and r: "substitute_items d items = Inr rest'"
    and i: "items' = (key, val') # rest'"
    by (auto simp: kv split: sum.splits)
  from Cons.IH [OF r] v show ?case by (simp add: kv i)
qed

lemma resolved_default_substituted:
  assumes "resolved_default c = Inr (JStr v)" and "\<not> sublist placeholder v"
    and "substitute_recursive (JStr v) c = Inr c'"
  shows "resolved_default c' = Inr (JStr v)"
proof -
  have pn: "placeholder \<noteq> []" by (simp add: placeholder_def)
  from assms(1) obtain items where c: "c = JDict items"
    by (cases c) (simp_all add: resolved_default_def)
  with assms(3) obtain items' where c': "c' = JDict items'"
    and si: "substitute_items (JStr v) items = Inr items'"
    by (auto split: sum.splits)
  note lk = substitute_items_lookup [OF si, of "''global''"]
  show ?thesis
  proof (cases "map_of items ''global''")
    case None
    with lk have "map_of items' ''global'' = None" by simp
    with None assms(1) show ?thesis by (simp add: resolved_default_def c c')
  next
    case (Some x)
    with assms(1) obtain g where x: "x = JDict g"
      by (cases x) (simp_all add: resolved_default_def c)
    from lk Some obtain x' where sx: "substitute_recursive (JStr v) x = Inr x'"
      and mx: "map_of items' ''global'' = Some x'" by blast
    from sx x obtain g' where x': "x' = JDict g'"
      and sg: "substitute_items (JStr v) g = Inr g'"
      by (auto split: sum.splits)
    note lg = substitute_items_lookup [OF sg, of "''default_host_ip''"]
    from assms(1) Some x
    have rd: "get_or (JStr ''127.0.0.1'') (map_of g ''default_host_ip'') = JStr v"
      by (simp add: resolved_default_def c)
    have "get_or (JStr ''127.0.0.1'') (map_of g' ''default_host_ip'') = JStr v"
    proof (cases "map_of g ''default_host_ip''")
      case None
      with lg have "map_of g' ''default_host_ip'' = None" by simp
      with None rd show ?thesis by simp
    next
      case (Some y)
      with rd have y: "y = JStr v" by (simp add: get_or_def)
      from lg Some obtain y' where "substitute_recursive (JStr v) y = Inr y'"
        and "map_of g' ''default_host_ip'' = Some y'" by blast
      with y show ?thesis by (auto simp: get_or_def str_replace_fixed [OF pn assms(2)])
    qed
    with mx x' show ?thesis by (simp add: resolved_default_def c')
  qed
qed

lemma disjoint_overlap_free:
  assumes "set v \<inter> set tok = {}" and "v \<noteq> []" and "tok \<noteq> []"
  shows "overlap_free v tok"
proof -
  have a: "\<not> sublist tok v"
  proof
    assume "sublist tok v"
    then have "set tok \<subseteq> set v" by (rule set_mono_sublist)
    with assms(1,3) show False by (cases tok) auto
  qed
  have b: "\<not> sublist v tok"
  proof
    assume "sublist v tok"
    then have "set v \<subseteq> set tok" by (rule set_mono_sublist)
    with assms(1,2) show False by (cases v) auto
  qed
  have c: "\<not> (x \<noteq> [] \<and> suffix x v \<and> prefix x tok)" for x
  proof
    assume h: "x \<noteq> [] \<and> suffix x v \<and> prefix x tok"
    then have "set x \<subseteq> set v" "set x \<subseteq> set tok"
      by (auto dest: set_mono_suffix set_mono_prefix)
    with assms(1) h show False by (cases x) auto
  qed
  have d: "\<not> (x \<noteq> [] \<and> prefix x v \<and> suffix x tok)" for x
  proof
    assume h: "x \<noteq> [] \<and> prefix x v \<and> suffix x tok"
    then have "set x \<subseteq> set v" "set x \<subseteq> set tok"
      by (auto dest: set_mono_suffix set_mono_prefix)
    with assms(1) h show False by (cases x) auto
  qed
  from a b c d show ?thesis by (auto simp: overlap_free_def list_ex_iff)
qed

lemma digits_dots_overlap_free:
  assumes "w \<noteq> []" and "set w \<subseteq> set ''0123456789.''"
  shows "overlap_free w placeholder"
proof (rule disjoint_overlap_free)
  show "set w \<inter> set placeholder = {}" using assms(2) by (auto simp: placeholder_def)
  show "w \<noteq> []" by (rule assms(1))
  show "placeholder \<noteq> []" by (simp add: placeholder_def)
qed

text \<open>
  C4 (as amended). When the resolved default host address is a string that does not
  overlap the placeholder (neither occurs inside the other, and no non-empty ending of one
  is a beginning of the other), the substitution pass succeeds, and applying it to its own
  result gives that result again. Every non-empty string of digits and dots is such a
  value: every dotted IPv4 literal, and with it the default 127.0.0.1 of the code.
\<close>

theorem substitute_variables_idempotent:
  assumes "resolved_default config = Inr (JStr v)" and "overlap_free v placeholder"
  shows "(\<exists>c'. substitute_variables config = Inr c' \<and> substitute_variables c' = Inr c')
       \<and> (\<forall>w. w \<noteq> [] \<and> set w \<subseteq> set ''0123456789.'' \<longrightarrow> overlap_free w placeholder)"
proof
  from substitute_idem(1) [OF assms(2), of "JStr v" config] obtain c' where
    c': "substitute_recursive (JStr v) config = Inr c'" "substitute_recursive (JStr v) c' = Inr c'"
    by blast
  from assms(2) have "\<not> sublist placeholder v" by (simp add: overlap_free_def)
  from resolved_default_substituted [OF assms(1) this c'(1)]
  have "resolved_default c' = Inr (JStr v)" .
  with assms(1) c' show "\<exists>c'. substitute_variables config = Inr c' \<and> substitute_variables c' = Inr c'"
    by (simp add: substitute_variables_def)
  show "\<forall>w. w \<noteq> [] \<and> set w \<subseteq> set ''0123456789.'' \<longrightarrow> overlap_free w placeholder"
    by (simp add: digits_dots_overlap_free)
qed

text \<open>
  A registry with default host address \<open>10.0.0.5\<close>, used in a port mapping next to an
  integer port: one pass writes the address, a second pass changes nothing. A registry
  without a \<open>global\<close> section resolves to the default 127.0.0.1 and behaves alike.
\<close>

theorem substitute_variables_idempotent_witness:
  "overlap_free ''10.0.0.5'' placeholder
   \<and> overlap_free ''127.0.0.1'' placeholder
   \<and> substitute_variables
       (JDict [(''global'', JDict [(''default_host_ip'', JStr ''10.0.0.5'')]),
               (''services'', JDict [(''n8n'', JDict [(''enabled'', JBool True),
                   (''ports'', JList [JDict [(''host_ip'', JStr ''${default_host_ip}''),
                                             (''host_port'', JInt 5678)]])])])])
     = Inr (JDict [(''global'', JDict [(''default_host_ip'', JStr ''10.0.0.5'')]),
               (''services'', JDict [(''n8n'', JDict [(''enabled'', JBool True),
                   (''ports'', JList [JDict [(''host_ip'', JStr ''10.0.0.5''),
                                             (''host_port'', JInt 5678)]])])])])
   \<and> substitute_variables
       (JDict [(''global'', JDict [(''default_host_ip'', JStr ''10.0.0.5'')]),
               (''services'', JDict [(''n8n'', JDict [(''enabled'', JBool True),
                   (''ports'', JList [JDict [(''host_ip'', JStr ''10.0.0.5''),
                                             (''host_port'', JInt 5678)]])])])])
     = Inr (JDict [(''global'', JDict [(''default_host_ip'', JStr ''10.0.0.5'')]),
               (''services'', JDict [(''n8n'', JDict [(''enabled'', JBool True),
                   (''ports'', JList [JDict [(''host_ip'', JStr ''10.0.0.5''),
                                             (''host_port'', JInt 5678)]])])])])
   \<and> substitute_variables
       (JDict [(''services'', JDict [(''n8n'', JDict [(''host'', JStr ''${default_host_ip}:80'')])])])
     = Inr (JDict [(''services'', JDict [(''n8n'', JDict [(''host'', JStr ''127.0.0.1:80'')])])])
   \<and> substitute_variables
       (JDict [(''services'', JDict [(''n8n'', JDict [(''host'', JStr ''127.0.0.1:80'')])])])
     = Inr (JDict [(''services'', JDict [(''n8n'', JDict [(''host'', JStr ''127.0.0.1:80'')])])])"
proof -
  let ?c = "JDict [(''global'', JDict [(''default_host_ip'', JStr ''10.0.0.5'')]),
               (''services'', JDict [(''n8n'', JDict [(''enabled'', JBool True),
                   (''ports'', JList [JDict [(''host_ip'', JStr ''${default_host_ip}''),
                                             (''host_port'', JInt 5678)]])])])]"
  let ?c1 = "JDict [(''global'', JDict [(''default_host_ip'', JStr ''10.0.0.5'')]),
               (''services'', JDict [(''n8n'', JDict [(''enabled'', JBool True),
                   (''ports'', JList [JDict [(''host_ip'', JStr ''10.0.0.5''),
                                             (''host_port'', JInt 5678)]])])])]"
  let ?d = "JDict [(''services'', JDict [(''n8n'', JDict [(''host'', JStr ''${default_host_ip}:80'')])])]"
  let ?d1 = "JDict [(''services'', JDict [(''n8n'', JDict [(''host'', JStr ''127.0.0.1:80'')])])]"
  have r: "resolved_default ?c = Inr (JStr ''10.0.0.5'')"
    by (simp add: resolved_default_def get_or_def)
  have o: "overlap_free ''10.0.0.5'' placeholder"
    by (simp add: overlap_free_def placeholder_def sublist_Cons_right suffix_to_prefix)
  have e: "substitute_variables ?c = Inr ?c1"
    by (simp add: eval_subst)
  note t = substitute_variables_idempotent [OF r o]
  from t e have i: "substitute_variables ?c1 = Inr ?c1" by auto
  from t have "''127.0.0.1'' \<noteq> [] \<and> set ''127.0.0.1'' \<subseteq> set ''0123456789.''
      \<longrightarrow> overlap_free ''127.0.0.1'' placeholder" by blast
  then have o2: "overlap_free ''127.0.0.1'' placeholder" by simp
  have r2: "resolved_default ?d = Inr (JStr ''127.0.0.1'')"
    by (simp add: resolved_default_def)
  have e2: "substitute_variables ?d = Inr ?d1"
    by (simp add: eval_subst)
  from substitute_variables_idempotent [OF r2 o2] e2
  have i2: "substitute_variables ?d1 = Inr ?d1" by auto
  from o o2 e i e2 i2 show ?thesis by (simp only: simp_thms)
qed

end
